theory Spec2Isabelle
  imports Main "HOL-Library.AList" "HOL-Library.Multiset"
begin

section \<open>Go values shared by the packages\<close>

text \<open>
  A Go \<^verbatim>\<open>map[string]string\<close> is an association list with distinct keys: an
  assignment \<^verbatim>\<open>m[k] = v\<close> is \<^const>\<open>AList.update\<close>, a lookup is \<^const>\<open>map_of\<close>,
  \<^verbatim>\<open>len(m)\<close> is the length of the list. Indexing a map of strings at a missing key
  gives the empty string.
\<close>

type_synonym gomap = "(string \<times> string) list"

definition index_map :: "gomap \<Rightarrow> string \<Rightarrow> string" where
  "index_map m k = (case map_of m k of None \<Rightarrow> [] | Some v \<Rightarrow> v)"

definition has_key :: "gomap \<Rightarrow> string \<Rightarrow> bool" where
  "has_key m k = (map_of m k \<noteq> None)"

text \<open>
  Slicing a Go string panics when the bounds are out of range; \<open>None\<close> is the panic.
  \<^verbatim>\<open>s[:i]\<close> is \<open>slice_to s i\<close> and \<^verbatim>\<open>s[i:]\<close> is \<open>slice_from s i\<close>.
\<close>

definition slice_to :: "string \<Rightarrow> int \<Rightarrow> string option" where
  "slice_to s i = (if 0 \<le> i \<and> i \<le> int (length s) then Some (take (nat i) s) else None)"

definition slice_from :: "string \<Rightarrow> int \<Rightarrow> string option" where
  "slice_from s i = (if 0 \<le> i \<and> i \<le> int (length s) then Some (drop (nat i) s) else None)"

text \<open>
  \<^verbatim>\<open>strings.LastIndex(s, ":")\<close> for a one-byte separator: the index of its last
  occurrence, or \<open>-1\<close>.
\<close>

primrec LastIndex :: "string \<Rightarrow> char \<Rightarrow> int" where
  "LastIndex [] c = - 1"
| "LastIndex (x # xs) c =
     (let r = LastIndex xs c in
      if 0 \<le> r then r + 1 else if x = c then 0 else - 1)"

text \<open>
  \<^verbatim>\<open>strings.Fields\<close> splits a string around each run of white-space characters, as
  \<^verbatim>\<open>unicode.IsSpace\<close> defines them, and drops empty fields. The strings are the
  UTF-8 bytes of the Go strings. The white-space characters are the six of Go's
  \<^verbatim>\<open>asciiSpace\<close> table (tab, line feed, vertical tab, form feed, carriage return,
  space) and U+0085, U+00A0, U+1680, U+2000 to U+200A, U+2028, U+2029, U+202F, U+205F
  and U+3000. \<open>space_width s\<close> is the number of bytes of the white-space character
  that \<open>s\<close> starts with, or \<open>0\<close>. UTF-8 is self-synchronising: a lead byte or an
  ASCII byte is never inside the encoding of another character, and Go's decoder
  steps over an invalid byte alone, so the decoder finds a white-space character
  exactly where its bytes stand.
\<close>

definition asciiSpace :: "char \<Rightarrow> bool" where
  "asciiSpace c = (c = CHR 0x09 \<or> c = CHR 0x0A \<or> c = CHR 0x0B \<or> c = CHR 0x0C
     \<or> c = CHR 0x0D \<or> c = CHR 0x20)"

fun space_width :: "string \<Rightarrow> nat" where
  "space_width [] = 0"
| "space_width (c # rest) =
     (if asciiSpace c then 1
      else if c = CHR 0xC2 then
        (case rest of
           d # _ \<Rightarrow> if d = CHR 0x85 \<or> d = CHR 0xA0 then 2 else 0
         | _ \<Rightarrow> 0)
      else if c = CHR 0xE1 then
        (case rest of
           d # e # _ \<Rightarrow> if d = CHR 0x9A \<and> e = CHR 0x80 then 3 else 0
         | _ \<Rightarrow> 0)
      else if c = CHR 0xE2 then
        (case rest of
           d # e # _ \<Rightarrow>
             if d = CHR 0x80
                \<and> ((0x80 \<le> (of_char e :: nat) \<and> (of_char e :: nat) \<le> 0x8A)
                     \<or> e = CHR 0xA8 \<or> e = CHR 0xA9 \<or> e = CHR 0xAF)
             then 3
             else if d = CHR 0x81 \<and> e = CHR 0x9F then 3 else 0
         | _ \<Rightarrow> 0)
      else if c = CHR 0xE3 then
        (case rest of
           d # e # _ \<Rightarrow> if d = CHR 0x80 \<and> e = CHR 0x80 then 3 else 0
         | _ \<Rightarrow> 0)
      else 0)"

text \<open>
  The scan of \<^verbatim>\<open>strings.Fields\<close>: \<open>cur\<close> is the field read so far and \<open>skip\<close> the
  number of bytes that are left of the white-space character being stepped over.
\<close>

fun fields_from :: "string \<Rightarrow> nat \<Rightarrow> string \<Rightarrow> string list" where
  "fields_from cur skip [] = (if cur = [] then [] else [cur])"
| "fields_from cur skip (c # cs) =
     (if 0 < skip then fields_from cur (skip - 1) cs
      else if 0 < space_width (c # cs) then
        (if cur = [] then fields_from [] (space_width (c # cs) - 1) cs
         else cur # fields_from [] (space_width (c # cs) - 1) cs)
      else fields_from (cur @ [c]) 0 cs)"

definition Fields :: "string \<Rightarrow> string list" where
  "Fields s = fields_from [] 0 s"

text \<open>
  The first field of a string that does not start with white space: its bytes up to
  the first white-space character.
\<close>

fun first_field :: "string \<Rightarrow> string" where
  "first_field [] = []"
| "first_field (c # cs) = (if 0 < space_width (c # cs) then [] else c # first_field cs)"

section \<open>pkg/setting/setting\_jwt.go\<close>

text \<open>
  \<^verbatim>\<open>parseOrgMapperConfig\<close>: the loop over the fields of the input, with the map
  built so far. \<open>None\<close> is the panic of a slice out of range.
\<close>

fun parseLoop :: "string list \<Rightarrow> gomap \<Rightarrow> gomap option" where
  "parseLoop [] result = Some result"
| "parseLoop (split # splits) result =
     (let i = LastIndex split (CHR '':'') in
      case slice_to split i of
        None \<Rightarrow> None
      | Some k \<Rightarrow>
          (case slice_from split (i + 1) of
             None \<Rightarrow> None
           | Some v \<Rightarrow> parseLoop splits (AList.update k v result)))"

definition parseOrgMapperConfig :: "string \<Rightarrow> gomap option" where
  "parseOrgMapperConfig input =
     (if input = [] then Some [] else parseLoop (Fields input) [])"

text \<open>
  The words of the specification for one well-formed token: the substring before the
  last colon is the pattern, the substring after it is the role.
\<close>

definition before_last_colon :: "string \<Rightarrow> string" where
  "before_last_colon t = rev (drop 1 (dropWhile (\<lambda>c. c \<noteq> CHR '':'') (rev t)))"

definition after_last_colon :: "string \<Rightarrow> string" where
  "after_last_colon t = rev (takeWhile (\<lambda>c. c \<noteq> CHR '':'') (rev t))"

definition pattern_role :: "string \<Rightarrow> string \<times> string" where
  "pattern_role t = (before_last_colon t, after_last_colon t)"

section \<open>Roles and errors\<close>

text \<open>
  \<^verbatim>\<open>org.RoleType\<close> is a Go string type; the role constants of package
  \<^verbatim>\<open>roletype\<close> are these strings. The empty string is the zero value that a
  lookup in \<^verbatim>\<open>map[string]org.RoleType\<close> gives at a missing key.
\<close>

type_synonym RoleType = string

definition RoleViewer :: RoleType where "RoleViewer = ''Viewer''"

definition RoleEditor :: RoleType where "RoleEditor = ''Editor''"

definition RoleAdmin :: RoleType where "RoleAdmin = ''Admin''"

text \<open>
  Go errors as values. The named constructors are the sentinel errors the sources
  test for or return; \<open>Errorf base format args\<close> is an error made from \<open>base\<close> with a
  formatted message (\<^verbatim>\<open>errInvalidOrg.Errorf(...)\<close>), and \<^verbatim>\<open>errors.Is\<close> follows
  that chain.
\<close>

datatype error =
    ErrLastOrgAdmin
  | ErrOrgNotFound
  | ErrDeviceLimitReached
  | errInvalidOrg
  | errInvalidID
  | ErrOther string
  | Errorf error string "int list"

fun errors_Is :: "error \<Rightarrow> error \<Rightarrow> bool" where
  "errors_Is (Errorf base format args) target =
     (Errorf base format args = target \<or> errors_Is base target)"
| "errors_Is e target = (e = target)"

section \<open>Claims-token client: extractRolesAndAdmin\<close>

text \<open>
  The fields of \<^verbatim>\<open>AuthJWTSettings\<close> that \<^verbatim>\<open>extractRolesAndAdmin\<close> reads. A nil
  and an empty \<^verbatim>\<open>RegexOrgRoleMapper\<close> are both the empty list: the source tests
  \<^verbatim>\<open>!= nil && len(...) > 0\<close>.
\<close>

record AuthJWTSettings =
  RoleAttributePath :: string
  RegexOrgRoleMapper :: gomap
  SkipOrgRoleSync :: bool

text \<open>
  Package \<^verbatim>\<open>regexp\<close> of the Go library is a parameter: \<open>Compile\<close> gives \<open>None\<close>
  where \<^verbatim>\<open>regexp.MustCompile\<close> panics, \<open>FindStringSubmatch\<close> gives the empty list
  for no match (Go's nil slice), and \<open>SubexpNames\<close> gives the names of the groups,
  the whole match first.
\<close>

record 're regexp_lib =
  Compile :: "string \<Rightarrow> 're option"
  FindStringSubmatch :: "'re \<Rightarrow> string \<Rightarrow> string list"
  SubexpNames :: "'re \<Rightarrow> string list"

text \<open>
  \<^verbatim>\<open>for i, name := range myExp.SubexpNames()\<close>, from index \<open>i\<close> on. The source
  reads \<^verbatim>\<open>match[i]\<close> only after \<^verbatim>\<open>i != 0 && name == "org"\<close>; an index out of
  range panics (\<open>None\<close>).
\<close>

fun namesLoop :: "nat \<Rightarrow> string list \<Rightarrow> string list \<Rightarrow> string \<Rightarrow> gomap \<Rightarrow> gomap option" where
  "namesLoop i [] match grafanaRole resultOrgRoles = Some resultOrgRoles"
| "namesLoop i (name # names) match grafanaRole resultOrgRoles =
     (if i \<noteq> 0 \<and> name = ''org'' then
        (if i < length match then
           (if index_map resultOrgRoles (match ! i) = [] then
              namesLoop (Suc i) names match grafanaRole
                (AList.update (match ! i) grafanaRole resultOrgRoles)
            else namesLoop (Suc i) names match grafanaRole resultOrgRoles)
         else None)
      else namesLoop (Suc i) names match grafanaRole resultOrgRoles)"

text \<open>
  \<^verbatim>\<open>for regexString, grafanaRole := range s.cfg.JWTAuth.RegexOrgRoleMapper\<close> for one
  asserted role. Go leaves the order of a range over a map unspecified; the list of
  entries given here is the map in the order in which this execution of the statement
  visits it.
\<close>

fun patternLoop :: "'re regexp_lib \<Rightarrow> string \<Rightarrow> gomap \<Rightarrow> gomap \<Rightarrow> gomap option" where
  "patternLoop lib jwtRole [] resultOrgRoles = Some resultOrgRoles"
| "patternLoop lib jwtRole ((regexString, grafanaRole) # rest) resultOrgRoles =
     (case Compile lib regexString of
        None \<Rightarrow> None
      | Some myExp \<Rightarrow>
          (let match = FindStringSubmatch lib myExp jwtRole in
           if length match > 0 then
             (case namesLoop 0 (SubexpNames lib myExp) match grafanaRole resultOrgRoles of
                None \<Rightarrow> None
              | Some r \<Rightarrow> patternLoop lib jwtRole rest r)
           else patternLoop lib jwtRole rest resultOrgRoles))"

text \<open>
  \<^verbatim>\<open>for _, jwtRole := range rolesSlice\<close>. The inner range statement is executed
  once for each asserted role, and each execution may visit the map in another order:
  \<open>visit k\<close> is the order of the execution for the role at index \<open>k\<close>.
\<close>

fun regexLoop :: "'re regexp_lib \<Rightarrow> (nat \<Rightarrow> gomap) \<Rightarrow> nat \<Rightarrow> string list \<Rightarrow> gomap \<Rightarrow> gomap option" where
  "regexLoop lib visit k [] resultOrgRoles = Some resultOrgRoles"
| "regexLoop lib visit k (jwtRole # roles) resultOrgRoles =
     (case patternLoop lib jwtRole (visit k) resultOrgRoles of
        None \<Rightarrow> None
      | Some r \<Rightarrow> regexLoop lib visit (Suc k) roles r)"

text \<open>\<^verbatim>\<open>strings.Split(s, ":")\<close> for a one-byte separator.\<close>

fun Split :: "string \<Rightarrow> char \<Rightarrow> string list" where
  "Split [] sep = [[]]"
| "Split (x # xs) sep =
     (if x = sep then [] # Split xs sep
      else (case Split xs sep of [] \<Rightarrow> [[x]] | p # ps \<Rightarrow> (x # p) # ps))"

text \<open>The static branch: \<^verbatim>\<open>for _, role := range rolesSlice\<close>.\<close>

fun staticLoop :: "string list \<Rightarrow> gomap \<Rightarrow> gomap" where
  "staticLoop [] resultOrgRoles = resultOrgRoles"
| "staticLoop (role # roles) resultOrgRoles =
     (let parsedRole = Split role (CHR '':'') in
      if length parsedRole \<noteq> 3 then staticLoop roles resultOrgRoles
      else if parsedRole ! 2 = ''admin'' then
        staticLoop roles (AList.update (parsedRole ! 1) RoleEditor resultOrgRoles)
      else if parsedRole ! 2 = ''viewer'' then
        staticLoop roles (AList.update (parsedRole ! 1) RoleViewer resultOrgRoles)
      else staticLoop roles resultOrgRoles)"

text \<open>
  \<^verbatim>\<open>extractRolesAndAdmin\<close>. \<^verbatim>\<open>util.SearchJSONForStringSliceAttr\<close> is the parameter
  \<open>search\<close>, over any type of claims. The result is the pair the source returns, or
  \<open>None\<close> when it panics.
\<close>

definition extractRolesAndAdmin ::
  "'re regexp_lib \<Rightarrow> (string \<Rightarrow> 'c \<Rightarrow> error + string list) \<Rightarrow> (nat \<Rightarrow> gomap)
     \<Rightarrow> AuthJWTSettings \<Rightarrow> 'c \<Rightarrow> (gomap \<times> bool) option" where
  "extractRolesAndAdmin lib search visit cfg claims =
     (let resultOrgRoles = [] in
      if RoleAttributePath cfg = [] then Some (resultOrgRoles, False)
      else
        (case search (RoleAttributePath cfg) claims of
           Inl err \<Rightarrow> Some (resultOrgRoles, False)
         | Inr rolesSlice \<Rightarrow>
             if length rolesSlice = 0 then Some (resultOrgRoles, False)
             else if length (RegexOrgRoleMapper cfg) > 0 then
               (case regexLoop lib visit 0 rolesSlice resultOrgRoles of
                  None \<Rightarrow> None
                | Some r \<Rightarrow> Some (r, False))
             else Some (staticLoop rolesSlice resultOrgRoles, False)))"

text \<open>
  The words of the specification for the static mapping: a string contributes when it
  splits on the colon into exactly three parts and the last is \<open>admin\<close> or \<open>viewer\<close>;
  it then maps its middle part to Editor or to Viewer.
\<close>

definition static_contribution :: "string \<Rightarrow> (string \<times> RoleType) option" where
  "static_contribution s =
     (case Split s (CHR '':'') of
        [scope, org, role] \<Rightarrow>
          if role = ''admin'' then Some (org, RoleEditor)
          else if role = ''viewer'' then Some (org, RoleViewer)
          else None
      | _ \<Rightarrow> None)"

text \<open>
  The organizations that one pattern captures from one asserted role: the submatches
  of the groups named \<open>org\<close>, as the loop over the group names reads them.
\<close>

fun captured_from :: "nat \<Rightarrow> string list \<Rightarrow> string list \<Rightarrow> string list" where
  "captured_from i [] match = []"
| "captured_from i (name # names) match =
     (if i \<noteq> 0 \<and> name = ''org'' \<and> i < length match
      then match ! i # captured_from (Suc i) names match
      else captured_from (Suc i) names match)"

definition captured :: "'re regexp_lib \<Rightarrow> string \<Rightarrow> string \<Rightarrow> string list" where
  "captured lib jwtRole regexString =
     (case Compile lib regexString of
        None \<Rightarrow> []
      | Some myExp \<Rightarrow>
          (let match = FindStringSubmatch lib myExp jwtRole in
           if length match > 0 then captured_from 0 (SubexpNames lib myExp) match else []))"

text \<open>
  Two entries of the mapper conflict on an asserted role when both capture the same
  organization from it and name different roles.
\<close>

definition conflict_free :: "'re regexp_lib \<Rightarrow> gomap \<Rightarrow> string list \<Rightarrow> bool" where
  "conflict_free lib mapper roles =
     (\<forall>jwtRole\<in>set roles. \<forall>(p, g)\<in>set mapper. \<forall>(p', g')\<in>set mapper.
        set (captured lib jwtRole p) \<inter> set (captured lib jwtRole p') \<noteq> {} \<longrightarrow> g = g')"

text \<open>
  A fragment of Go's \<^verbatim>\<open>regexp\<close>: the two patterns \<^verbatim>\<open>(?P<org>a)\<close> and
  \<^verbatim>\<open>(?P<org>.)\<close>, on ASCII input. Each has one group, named \<open>org\<close>; the first
  matches the leftmost \<open>a\<close>, the second the leftmost character that is not a line
  feed. No other pattern is part of the fragment.
\<close>

datatype frag_re = ReA | ReDot

definition frag_lib :: "frag_re regexp_lib" where
  "frag_lib =
     \<lparr> Compile = (\<lambda>s. if s = ''(?P<org>a)'' then Some ReA
                      else if s = ''(?P<org>.)'' then Some ReDot else None),
       FindStringSubmatch = (\<lambda>re s.
          case re of
            ReA \<Rightarrow> (if CHR ''a'' \<in> set s then [''a'', ''a''] else [])
          | ReDot \<Rightarrow> (case dropWhile (\<lambda>c. c = CHR 0x0A) s of
                        [] \<Rightarrow> []
                      | c # cs \<Rightarrow> [[c], [c]])),
       SubexpNames = (\<lambda>re. ['''', ''org'']) \<rparr>"

text \<open>
  A configuration for the fragment: the two patterns with different target roles, in
  the two orders in which a range over the map can visit them.
\<close>

definition mapper_a_dot :: gomap where
  "mapper_a_dot = [(''(?P<org>a)'', ''Editor''), (''(?P<org>.)'', ''Viewer'')]"

definition mapper_dot_a :: gomap where
  "mapper_dot_a = [(''(?P<org>.)'', ''Viewer''), (''(?P<org>a)'', ''Editor'')]"

definition cfg_a_dot :: AuthJWTSettings where
  "cfg_a_dot = \<lparr> RoleAttributePath = ''roles'', RegexOrgRoleMapper = mapper_a_dot,
     SkipOrgRoleSync = False \<rparr>"

definition cfg_static :: AuthJWTSettings where
  "cfg_static = \<lparr> RoleAttributePath = ''roles'', RegexOrgRoleMapper = [],
     SkipOrgRoleSync = False \<rparr>"

text \<open>Claims are the asserted roles themselves; the search returns them.\<close>

definition search_roles :: "string \<Rightarrow> string list \<Rightarrow> error + string list" where
  "search_roles path claims = Inr claims"

section \<open>Identities, organizations and the services\<close>

text \<open>
  Modelled from the spec: the namespaced identifier of package \<^verbatim>\<open>identity\<close> is a
  namespace tag with an identifier string. \<^verbatim>\<open>IsNamespace\<close> compares the tag,
  \<^verbatim>\<open>ParseInt\<close> reads the identifier as a decimal 64-bit integer, and
  \<^verbatim>\<open>authn.AnonymousNamespaceID\<close> is the fixed identifier of the anonymous namespace.
\<close>

datatype Namespace =
    NamespaceUser
  | NamespaceAPIKey
  | NamespaceServiceAccount
  | NamespaceAnonymous
  | NamespaceRenderService
  | NamespaceOther string

record NamespaceID =
  namespace :: Namespace
  ident :: string

definition IsNamespace :: "NamespaceID \<Rightarrow> Namespace \<Rightarrow> bool" where
  "IsNamespace ni expected = (namespace ni = expected)"

definition digit :: "char \<Rightarrow> nat option" where
  "digit c = (let n = (of_char c :: nat) in if 48 \<le> n \<and> n \<le> 57 then Some (n - 48) else None)"

fun digits_value :: "nat \<Rightarrow> string \<Rightarrow> nat option" where
  "digits_value acc [] = Some acc"
| "digits_value acc (c # cs) =
     (case digit c of None \<Rightarrow> None | Some d \<Rightarrow> digits_value (10 * acc + d) cs)"

definition strconv_ParseInt :: "string \<Rightarrow> int option" where
  "strconv_ParseInt s =
     (let (neg, ds) =
        (case s of
           [] \<Rightarrow> (False, [])
         | c # cs \<Rightarrow>
             if c = CHR ''-'' then (True, cs)
             else if c = CHR ''+'' then (False, cs)
             else (False, s))
      in if ds = [] then None
         else
           (case digits_value 0 ds of
              None \<Rightarrow> None
            | Some n \<Rightarrow>
                (let v = (if neg then - int n else int n)
                 in if - (2 ^ 63) \<le> v \<and> v < 2 ^ 63 then Some v else None)))"

definition ParseInt :: "NamespaceID \<Rightarrow> int option" where
  "ParseInt ni = strconv_ParseInt (ident ni)"

definition AnonymousNamespaceID :: NamespaceID where
  "AnonymousNamespaceID = \<lparr> namespace = NamespaceAnonymous, ident = ''0'' \<rparr>"

text \<open>
  \<^verbatim>\<open>authn.ClientParams\<close> and \<^verbatim>\<open>authn.Identity\<close>, with the fields that the clients
  and the hook set or read; the other fields of the source stay at their zero values
  throughout and are left out.
\<close>

record ClientParams =
  SyncUser :: bool
  AllowSignUp :: bool
  FetchSyncedUser :: bool
  SyncTeams :: bool
  SyncOrgRoles :: bool
  SyncPermissions :: bool

definition ClientParams_zero :: ClientParams where
  "ClientParams_zero = \<lparr> SyncUser = False, AllowSignUp = False, FetchSyncedUser = False,
     SyncTeams = False, SyncOrgRoles = False, SyncPermissions = False \<rparr>"

record Identity =
  ID :: NamespaceID
  OrgID :: int
  OrgName :: string
  OrgRoles :: gomap
  Login :: string
  Name :: string
  Email :: string
  AuthenticatedBy :: string
  AuthID :: string
  ClientParams :: ClientParams

definition Identity_zero :: Identity where
  "Identity_zero = \<lparr> ID = \<lparr> namespace = NamespaceOther [], ident = [] \<rparr>,
     OrgID = 0, OrgName = [], OrgRoles = [], Login = [], Name = [], Email = [],
     AuthenticatedBy = [], AuthID = [], ClientParams = ClientParams_zero \<rparr>"

text \<open>\<^verbatim>\<open>org.Org\<close> and \<^verbatim>\<open>org.UserOrgDTO\<close>: the fields the sources read.\<close>

record Org =
  Org_ID :: int
  Org_Name :: string

record UserOrgDTO =
  DTO_OrgID :: int
  DTO_Name :: string
  DTO_Role :: RoleType

text \<open>The request: the header and the remote address of the HTTP request, if any.\<close>

record HTTPRequest =
  Header :: "(string \<times> string list) list option"
  RemoteAddr :: string

record Request =
  Request_HTTPRequest :: "HTTPRequest option"

text \<open>
  The settings the anonymous client reads from \<^verbatim>\<open>setting.Cfg\<close>.
\<close>

record Cfg =
  AnonymousEnabled :: bool
  AnonymousOrgName :: string
  AnonymousOrgRole :: string

text \<open>
  The services are interfaces whose implementations are not part of the sources: they
  are parameters, over any type \<open>'s\<close> of persisted state. A Go result
  \<^verbatim>\<open>(*T, error)\<close> is a pair of options (\<open>None\<close> is nil); the lookups read the state,
  the other operations return the error and the new state. The commands are given by
  their fields: \<open>UpdateOrgUser\<close>, \<open>AddOrgUser\<close> take the organization id, the user id
  and the role; \<open>RemoveOrgUser\<close> and \<open>DeleteUserPermissions\<close> take the organization id
  and the user id; \<open>Update\<close> (of the user service) takes the user id and the
  organization id.
\<close>

record 's services =
  GetByName :: "string \<Rightarrow> 's \<Rightarrow> Org option \<times> error option"
  GetByID :: "int \<Rightarrow> 's \<Rightarrow> Org option \<times> error option"
  GetUserOrgList :: "int \<Rightarrow> 's \<Rightarrow> UserOrgDTO list \<times> error option"
  UpdateOrgUser :: "int \<Rightarrow> int \<Rightarrow> RoleType \<Rightarrow> 's \<Rightarrow> error option \<times> 's"
  AddOrgUser :: "int \<Rightarrow> int \<Rightarrow> RoleType \<Rightarrow> 's \<Rightarrow> error option \<times> 's"
  RemoveOrgUser :: "int \<Rightarrow> int \<Rightarrow> 's \<Rightarrow> error option \<times> 's"
  DeleteUserPermissions :: "int \<Rightarrow> int \<Rightarrow> 's \<Rightarrow> error option \<times> 's"
  Update :: "int \<Rightarrow> int \<Rightarrow> 's \<Rightarrow> error option \<times> 's"
  TagDevice :: "HTTPRequest \<Rightarrow> 's \<Rightarrow> error option \<times> 's"

text \<open>
  What a Go function with results \<^verbatim>\<open>(T, error)\<close> does: it returns a value with a
  nil error, returns an error, or panics.
\<close>

datatype 'a outcome = Return 'a | Fail error | Panic

section \<open>Anonymous client\<close>

definition newAnonymousIdentity :: "Cfg \<Rightarrow> Org \<Rightarrow> Identity" where
  "newAnonymousIdentity cfg o' =
     Identity_zero \<lparr> ID := AnonymousNamespaceID, OrgID := Org_ID o', OrgName := Org_Name o',
       OrgRoles := [(Org_Name o', AnonymousOrgRole cfg)],
       ClientParams := ClientParams_zero \<lparr> SyncPermissions := True \<rparr> \<rparr>"

definition httpReqCopy :: "Request \<Rightarrow> HTTPRequest" where
  "httpReqCopy r =
     (case Request_HTTPRequest r of
        None \<Rightarrow> \<lparr> Header = None, RemoteAddr = [] \<rparr>
      | Some h \<Rightarrow>
          (case Header h of
             None \<Rightarrow> \<lparr> Header = None, RemoteAddr = [] \<rparr>
           | Some header \<Rightarrow> \<lparr> Header = Some header, RemoteAddr = RemoteAddr h \<rparr>))"

text \<open>
  \<^verbatim>\<open>Anonymous.Authenticate\<close>. The organization is dereferenced only in
  \<^verbatim>\<open>newAnonymousIdentity\<close>, after the device has been tagged.
\<close>

definition Authenticate :: "'s services \<Rightarrow> Cfg \<Rightarrow> Request \<Rightarrow> 's \<Rightarrow> Identity outcome \<times> 's" where
  "Authenticate svc cfg r s =
     (case GetByName svc (AnonymousOrgName cfg) s of
        (o', Some err) \<Rightarrow> (Fail err, s)
      | (o', None) \<Rightarrow>
          (case TagDevice svc (httpReqCopy r) s of
             (Some err, s') \<Rightarrow>
               if errors_Is err ErrDeviceLimitReached then (Fail err, s')
               else (case o' of
                       None \<Rightarrow> (Panic, s')
                     | Some org \<Rightarrow> (Return (newAnonymousIdentity cfg org), s'))
           | (None, s') \<Rightarrow>
               (case o' of
                  None \<Rightarrow> (Panic, s')
                | Some org \<Rightarrow> (Return (newAnonymousIdentity cfg org), s'))))"

text \<open>
  \<^verbatim>\<open>Anonymous.ResolveIdentity\<close>. The message of the invalid-organization error names
  the id of the configured organization.
\<close>

definition ResolveIdentity ::
  "'s services \<Rightarrow> Cfg \<Rightarrow> int \<Rightarrow> NamespaceID \<Rightarrow> 's \<Rightarrow> Identity outcome" where
  "ResolveIdentity svc cfg orgID namespaceID s =
     (case GetByName svc (AnonymousOrgName cfg) s of
        (o', Some err) \<Rightarrow> Fail err
      | (None, None) \<Rightarrow> Panic
      | (Some org, None) \<Rightarrow>
          if Org_ID org \<noteq> orgID then
            Fail (Errorf errInvalidOrg ''anonymous user cannot authenticate in org %d''
              [Org_ID org])
          else if namespaceID \<noteq> AnonymousNamespaceID then Fail errInvalidID
          else Return (newAnonymousIdentity cfg org))"

section \<open>Organization role sync\<close>

text \<open>
  The first loop of \<^verbatim>\<open>SyncOrgRolesHook\<close>, over the current memberships. The set
  \<open>handledOrgIds\<close> is the key set of the source's map. The error of \<open>GetByID\<close> is
  dropped and the organization is dereferenced: a nil organization is a panic.
\<close>

fun updateLoop ::
  "'s services \<Rightarrow> Identity \<Rightarrow> int \<Rightarrow> UserOrgDTO list \<Rightarrow> int set \<Rightarrow> int list \<Rightarrow> 's
     \<Rightarrow> (int set \<times> int list) outcome \<times> 's" where
  "updateLoop svc id' userID [] handledOrgIds deleteOrgIds s =
     (Return (handledOrgIds, deleteOrgIds), s)"
| "updateLoop svc id' userID (orga # rest) handledOrgIds deleteOrgIds s =
     (let handled = insert (DTO_OrgID orga) handledOrgIds in
      case fst (GetByID svc (DTO_OrgID orga) s) of
        None \<Rightarrow> (Panic, s)
      | Some orgb \<Rightarrow>
          (let extRole = index_map (OrgRoles id') (Org_Name orgb) in
           if extRole = [] then
             updateLoop svc id' userID rest handled (deleteOrgIds @ [DTO_OrgID orga]) s
           else if extRole \<noteq> DTO_Role orga then
             (case UpdateOrgUser svc (DTO_OrgID orga) userID extRole s of
                (Some err, s') \<Rightarrow> (Fail err, s')
              | (None, s') \<Rightarrow> updateLoop svc id' userID rest handled deleteOrgIds s')
           else updateLoop svc id' userID rest handled deleteOrgIds s))"

text \<open>
  The second loop, over the asserted roles in the order in which the range visits
  them: the list \<open>OrgRoles\<close> of the identity is in that order.
\<close>

fun addLoop ::
  "'s services \<Rightarrow> int \<Rightarrow> int set \<Rightarrow> gomap \<Rightarrow> int list \<Rightarrow> 's \<Rightarrow> int list outcome \<times> 's" where
  "addLoop svc userID handledOrgIds [] orgIDs s = (Return orgIDs, s)"
| "addLoop svc userID handledOrgIds ((orgName, orgRole) # rest) orgIDs s =
     (case GetByName svc orgName s of
        (None, e) \<Rightarrow> addLoop svc userID handledOrgIds rest orgIDs s
      | (Some orga, Some e) \<Rightarrow> addLoop svc userID handledOrgIds rest orgIDs s
      | (Some orga, None) \<Rightarrow>
          (let orgIDs' = orgIDs @ [Org_ID orga] in
           if Org_ID orga \<in> handledOrgIds then addLoop svc userID handledOrgIds rest orgIDs' s
           else
             (case AddOrgUser svc (Org_ID orga) userID orgRole s of
                (Some err, s') \<Rightarrow>
                  if \<not> errors_Is err ErrOrgNotFound then (Fail err, s')
                  else addLoop svc userID handledOrgIds rest orgIDs' s'
              | (None, s') \<Rightarrow> addLoop svc userID handledOrgIds rest orgIDs' s')))"

text \<open>The third loop, over the memberships marked for removal.\<close>

fun removeLoop :: "'s services \<Rightarrow> int \<Rightarrow> int list \<Rightarrow> 's \<Rightarrow> unit outcome \<times> 's" where
  "removeLoop svc userID [] s = (Return (), s)"
| "removeLoop svc userID (orgID # rest) s =
     (case RemoveOrgUser svc orgID userID s of
        (Some err, s') \<Rightarrow>
          if errors_Is err ErrLastOrgAdmin then removeLoop svc userID rest s'
          else (Fail err, s')
      | (None, s') \<Rightarrow>
          removeLoop svc userID rest (snd (DeleteUserPermissions svc orgID userID s')))"

text \<open>
  The end of the hook: the ids are sorted and, when the asserted roles do not have the
  active organization of the identity, the first becomes the active organization. The
  identity is changed in place before the user service is called.
\<close>

definition updateDefaultOrg ::
  "'s services \<Rightarrow> Identity \<Rightarrow> int \<Rightarrow> int list \<Rightarrow> 's \<Rightarrow> unit outcome \<times> Identity \<times> 's" where
  "updateDefaultOrg svc id' userID orgIDs s =
     (let sorted = sort orgIDs in
      if \<not> has_key (OrgRoles id') (OrgName id') then
        (case sorted of
           [] \<Rightarrow> (Return (), id', s)
         | first # others \<Rightarrow>
             (case Update svc userID first s of
                (None, s') \<Rightarrow> (Return (), id' \<lparr> OrgID := first \<rparr>, s')
              | (Some err, s') \<Rightarrow> (Fail err, id' \<lparr> OrgID := first \<rparr>, s')))
      else (Return (), id', s))"

text \<open>
  The three loops in sequence, from the fetched memberships to the sorted ids.
\<close>

definition syncMemberships ::
  "'s services \<Rightarrow> Identity \<Rightarrow> int \<Rightarrow> UserOrgDTO list \<Rightarrow> 's \<Rightarrow> int list outcome \<times> 's" where
  "syncMemberships svc id' userID result s =
     (case updateLoop svc id' userID result {} [] s of
        (Panic, s1) \<Rightarrow> (Panic, s1)
      | (Fail err, s1) \<Rightarrow> (Fail err, s1)
      | (Return (handledOrgIds, deleteOrgIds), s1) \<Rightarrow>
          (case addLoop svc userID handledOrgIds (OrgRoles id') [] s1 of
             (Panic, s2) \<Rightarrow> (Panic, s2)
           | (Fail err, s2) \<Rightarrow> (Fail err, s2)
           | (Return orgIDs, s2) \<Rightarrow>
               (case removeLoop svc userID deleteOrgIds s2 of
                  (Panic, s3) \<Rightarrow> (Panic, s3)
                | (Fail err, s3) \<Rightarrow> (Fail err, s3)
                | (Return u, s3) \<Rightarrow> (Return orgIDs, s3))))"

text \<open>
  \<^verbatim>\<open>OrgSync.SyncOrgRolesHook\<close>: the outcome, the identity (which the source changes
  through its pointer) and the persisted state.
\<close>

definition SyncOrgRolesHook ::
  "'s services \<Rightarrow> Identity \<Rightarrow> 's \<Rightarrow> unit outcome \<times> Identity \<times> 's" where
  "SyncOrgRolesHook svc id' s =
     (if \<not> SyncOrgRoles (ClientParams id') then (Return (), id', s)
      else if \<not> IsNamespace (ID id') NamespaceUser then (Return (), id', s)
      else
        (case ParseInt (ID id') of
           None \<Rightarrow> (Return (), id', s)
         | Some userID \<Rightarrow>
             if length (OrgRoles id') = 0 then (Return (), id', s)
             else
               (case GetUserOrgList svc userID s of
                  (result, Some err) \<Rightarrow> (Return (), id', s)
                | (result, None) \<Rightarrow>
                    (case syncMemberships svc id' userID result s of
                       (Panic, s') \<Rightarrow> (Panic, id', s')
                     | (Fail err, s') \<Rightarrow> (Fail err, id', s')
                     | (Return orgIDs, s') \<Rightarrow> updateDefaultOrg svc id' userID orgIDs s'))))"

section \<open>An implementation of the services\<close>

text \<open>
  Modelled from the spec: the consumed services (membership service, organization
  directory, user directory, permission store, device store) are not part of the
  sources. The state holds the organizations, the memberships as (organization id,
  user id, role), the active organization of each user, the (organization id, user
  id) pairs with stored permissions and the tagged devices with their limit. The
  operations do what the specification says of them: lookups by name and by id, the
  memberships of a user, adding, updating and removing a membership where a removal
  that would strip the last admin of an organization is rejected, updating the active
  organization of a user, deleting the permissions of a user in an organization, and
  tagging a device, which fails when the limit is reached.
\<close>

record store =
  orgs :: "Org list"
  org_users :: "(int \<times> int \<times> RoleType) list"
  user_org :: "(int \<times> int) list"
  permissions :: "(int \<times> int) list"
  devices :: "HTTPRequest list"
  device_limit :: nat

definition store_GetByName :: "string \<Rightarrow> store \<Rightarrow> Org option \<times> error option" where
  "store_GetByName name s =
     (case find (\<lambda>o'. Org_Name o' = name) (orgs s) of
        None \<Rightarrow> (None, Some ErrOrgNotFound)
      | Some o' \<Rightarrow> (Some o', None))"

definition store_GetByID :: "int \<Rightarrow> store \<Rightarrow> Org option \<times> error option" where
  "store_GetByID i s =
     (case find (\<lambda>o'. Org_ID o' = i) (orgs s) of
        None \<Rightarrow> (None, Some ErrOrgNotFound)
      | Some o' \<Rightarrow> (Some o', None))"

definition user_memberships :: "store \<Rightarrow> int \<Rightarrow> (int \<times> RoleType) list" where
  "user_memberships s userID =
     map (\<lambda>(orgID, u, role). (orgID, role)) (filter (\<lambda>(orgID, u, role). u = userID) (org_users s))"

definition store_GetUserOrgList :: "int \<Rightarrow> store \<Rightarrow> UserOrgDTO list \<times> error option" where
  "store_GetUserOrgList userID s =
     (map (\<lambda>(orgID, role).
         \<lparr> DTO_OrgID = orgID,
           DTO_Name = (case fst (store_GetByID orgID s) of None \<Rightarrow> [] | Some o' \<Rightarrow> Org_Name o'),
           DTO_Role = role \<rparr>)
        (user_memberships s userID), None)"

definition store_UpdateOrgUser :: "int \<Rightarrow> int \<Rightarrow> RoleType \<Rightarrow> store \<Rightarrow> error option \<times> store" where
  "store_UpdateOrgUser orgID userID role s =
     (None, s \<lparr> org_users :=
        map (\<lambda>(o', u, r). if o' = orgID \<and> u = userID then (o', u, role) else (o', u, r))
          (org_users s) \<rparr>)"

definition store_AddOrgUser :: "int \<Rightarrow> int \<Rightarrow> RoleType \<Rightarrow> store \<Rightarrow> error option \<times> store" where
  "store_AddOrgUser orgID userID role s =
     (None, s \<lparr> org_users := org_users s @ [(orgID, userID, role)] \<rparr>)"

definition last_admin :: "store \<Rightarrow> int \<Rightarrow> int \<Rightarrow> bool" where
  "last_admin s orgID userID =
     ((orgID, userID, RoleAdmin) \<in> set (org_users s)
      \<and> filter (\<lambda>(o', u, r). o' = orgID \<and> u \<noteq> userID \<and> r = RoleAdmin) (org_users s) = [])"

definition store_RemoveOrgUser :: "int \<Rightarrow> int \<Rightarrow> store \<Rightarrow> error option \<times> store" where
  "store_RemoveOrgUser orgID userID s =
     (if last_admin s orgID userID then (Some ErrLastOrgAdmin, s)
      else (None, s \<lparr> org_users :=
              filter (\<lambda>(o', u, r). \<not> (o' = orgID \<and> u = userID)) (org_users s) \<rparr>))"

definition store_DeleteUserPermissions :: "int \<Rightarrow> int \<Rightarrow> store \<Rightarrow> error option \<times> store" where
  "store_DeleteUserPermissions orgID userID s =
     (None, s \<lparr> permissions := filter (\<lambda>p. p \<noteq> (orgID, userID)) (permissions s) \<rparr>)"

definition store_Update :: "int \<Rightarrow> int \<Rightarrow> store \<Rightarrow> error option \<times> store" where
  "store_Update userID orgID s = (None, s \<lparr> user_org := AList.update userID orgID (user_org s) \<rparr>)"

definition store_TagDevice :: "HTTPRequest \<Rightarrow> store \<Rightarrow> error option \<times> store" where
  "store_TagDevice d s =
     (if device_limit s \<le> length (devices s) then (Some ErrDeviceLimitReached, s)
      else (None, s \<lparr> devices := devices s @ [d] \<rparr>))"

definition store_services :: "store services" where
  "store_services =
     \<lparr> GetByName = store_GetByName, GetByID = store_GetByID,
       GetUserOrgList = store_GetUserOrgList, UpdateOrgUser = store_UpdateOrgUser,
       AddOrgUser = store_AddOrgUser, RemoveOrgUser = store_RemoveOrgUser,
       DeleteUserPermissions = store_DeleteUserPermissions, Update = store_Update,
       TagDevice = store_TagDevice \<rparr>"

text \<open>
  A well-formed directory gives each organization one id and one name, and every
  membership is in an organization of the directory.
\<close>

definition directory_ok :: "store \<Rightarrow> bool" where
  "directory_ok s =
     (distinct (map Org_ID (orgs s)) \<and> distinct (map Org_Name (orgs s))
      \<and> list_all (\<lambda>(o', u, r). o' \<in> set (map Org_ID (orgs s))) (org_users s))"

text \<open>
  The words of the specification for the active organization after the sync: the
  organizations resulting from the sync are those that the asserted roles resolve to
  and those of the memberships the user has afterwards.
\<close>

definition resolved_org_ids :: "store \<Rightarrow> gomap \<Rightarrow> int list" where
  "resolved_org_ids s roles =
     List.map_filter (\<lambda>(orgName, role). map_option Org_ID (fst (store_GetByName orgName s))) roles"

definition resulting_org_ids :: "store \<Rightarrow> Identity \<Rightarrow> int \<Rightarrow> int list" where
  "resulting_org_ids s id' userID =
     resolved_org_ids s (OrgRoles id') @ map fst (user_memberships s userID)"

text \<open>A user identity that asks for the sync of its organization roles.\<close>

definition user_identity :: "string \<Rightarrow> int \<Rightarrow> string \<Rightarrow> gomap \<Rightarrow> Identity" where
  "user_identity uid orgID orgName roles =
     Identity_zero \<lparr> ID := \<lparr> namespace = NamespaceUser, ident = uid \<rparr>,
       OrgID := orgID, OrgName := orgName, OrgRoles := roles,
       ClientParams := ClientParams_zero \<lparr> SyncOrgRoles := True \<rparr> \<rparr>"

text \<open>Whether tagging the device of a request fails with the device limit.\<close>

definition device_limit_hit :: "'s services \<Rightarrow> Request \<Rightarrow> 's \<Rightarrow> bool" where
  "device_limit_hit svc r s =
     (case fst (TagDevice svc (httpReqCopy r) s) of
        None \<Rightarrow> False
      | Some e \<Rightarrow> errors_Is e ErrDeviceLimitReached)"

text \<open>
  Two organizations, \<open>B\<close> with id 1 and \<open>A\<close> with id 2. User 7 is a Viewer of \<open>A\<close>
  and the only Admin of \<open>B\<close>; in the second state user 8 is an Admin of \<open>B\<close> too.
\<close>

definition org_A :: Org where
  "org_A = \<lparr> Org_ID = 2, Org_Name = ''A'' \<rparr>"

definition org_B :: Org where
  "org_B = \<lparr> Org_ID = 1, Org_Name = ''B'' \<rparr>"

definition store_last_admin :: store where
  "store_last_admin =
     \<lparr> orgs = [org_B, org_A], org_users = [(2, 7, ''Viewer''), (1, 7, ''Admin'')],
       user_org = [(7, 1)], permissions = [(1, 7), (2, 7)], devices = [], device_limit = 1 \<rparr>"

definition store_two_admins :: store where
  "store_two_admins =
     \<lparr> orgs = [org_B, org_A],
       org_users = [(2, 7, ''Viewer''), (1, 7, ''Admin''), (1, 8, ''Admin'')],
       user_org = [(7, 1)], permissions = [(1, 7), (2, 7)], devices = [], device_limit = 0 \<rparr>"

definition anon_cfg :: "string \<Rightarrow> Cfg" where
  "anon_cfg orgName =
     \<lparr> AnonymousEnabled = True, AnonymousOrgName = orgName, AnonymousOrgRole = ''Viewer'' \<rparr>"

definition no_request :: Request where
  "no_request = \<lparr> Request_HTTPRequest = None \<rparr>"

text \<open>
  Services that record every call that changes state, and fail where told to (a
  removal fails with the error given for its organization). The state is the list of
  the calls made so far. The directory holds the organizations
  \<open>B\<close> and \<open>A\<close>; the memberships returned for a user are given.
\<close>

datatype call =
    CallUpdateOrgUser int int RoleType
  | CallAddOrgUser int int RoleType
  | CallRemoveOrgUser int int
  | CallDeleteUserPermissions int int
  | CallUpdate int int
  | CallTagDevice

record faults =
  fetch_error :: "error option"
  lookup_nil :: bool
  update_error :: "error option"
  add_error :: "error option"
  remove_error :: "int \<Rightarrow> error option"
  user_update_error :: "error option"

definition no_faults :: faults where
  "no_faults = \<lparr> fetch_error = None, lookup_nil = False, update_error = None,
     add_error = None, remove_error = (\<lambda>orgID. None), user_update_error = None \<rparr>"

definition recording_services :: "faults \<Rightarrow> UserOrgDTO list \<Rightarrow> call list services" where
  "recording_services f memberships =
     \<lparr> GetByName = (\<lambda>name log.
          case find (\<lambda>o'. Org_Name o' = name) [org_B, org_A] of
            None \<Rightarrow> (None, Some ErrOrgNotFound)
          | Some o' \<Rightarrow> (Some o', None)),
       GetByID = (\<lambda>i log.
          if lookup_nil f then (None, Some ErrOrgNotFound)
          else (case find (\<lambda>o'. Org_ID o' = i) [org_B, org_A] of
                  None \<Rightarrow> (None, Some ErrOrgNotFound)
                | Some o' \<Rightarrow> (Some o', None))),
       GetUserOrgList = (\<lambda>userID log. (memberships, fetch_error f)),
       UpdateOrgUser = (\<lambda>orgID userID role log.
          (update_error f, log @ [CallUpdateOrgUser orgID userID role])),
       AddOrgUser = (\<lambda>orgID userID role log.
          (add_error f, log @ [CallAddOrgUser orgID userID role])),
       RemoveOrgUser = (\<lambda>orgID userID log.
          (remove_error f orgID, log @ [CallRemoveOrgUser orgID userID])),
       DeleteUserPermissions = (\<lambda>orgID userID log.
          (None, log @ [CallDeleteUserPermissions orgID userID])),
       Update = (\<lambda>userID orgID log.
          (user_update_error f, log @ [CallUpdate userID orgID])),
       TagDevice = (\<lambda>d log. (None, log @ [CallTagDevice])) \<rparr>"

definition admin_of_B :: "UserOrgDTO list" where
  "admin_of_B = [\<lparr> DTO_OrgID = 1, DTO_Name = ''B'', DTO_Role = ''Admin'' \<rparr>]"

definition admin_of_B_viewer_of_A :: "UserOrgDTO list" where
  "admin_of_B_viewer_of_A =
     [\<lparr> DTO_OrgID = 1, DTO_Name = ''B'', DTO_Role = ''Admin'' \<rparr>,
      \<lparr> DTO_OrgID = 2, DTO_Name = ''A'', DTO_Role = ''Viewer'' \<rparr>]"

text \<open>
  A state in which user 7 is a Viewer of \<open>A\<close> and has a membership in an organization,
  with id 5, that the directory does not have.
\<close>

definition store_dangling :: store where
  "store_dangling =
     \<lparr> orgs = [org_B, org_A], org_users = [(2, 7, ''Viewer''), (5, 7, ''Admin'')],
       user_org = [(7, 2)], permissions = [], devices = [], device_limit = 1 \<rparr>"

text \<open>
  The ids of the organizations that the asserted role names resolve to, in the order of
  the asserted roles, for any services; and services whose lookup by name is not
  changed by updating or adding a membership.
\<close>

definition resolved_ids :: "'s services \<Rightarrow> 's \<Rightarrow> gomap \<Rightarrow> int list" where
  "resolved_ids svc s roles =
     List.map_filter
       (\<lambda>(orgName, role).
          case GetByName svc orgName s of
            (Some o', None) \<Rightarrow> Some (Org_ID o')
          | _ \<Rightarrow> None)
       roles"

definition directory_stable :: "'s services \<Rightarrow> bool" where
  "directory_stable svc =
     (\<forall>name orgID userID role t.
        GetByName svc name (snd (UpdateOrgUser svc orgID userID role t)) = GetByName svc name t
        \<and> GetByName svc name (snd (AddOrgUser svc orgID userID role t)) = GetByName svc name t)"

section \<open>Properties of parseOrgMapperConfig\<close>

lemma LastIndex_absent: "c \<notin> set s \<Longrightarrow> LastIndex s c = - 1"
  by (induction s) (auto simp: Let_def)

lemma LastIndex_present:
  "c \<in> set s \<Longrightarrow> \<exists>k v. s = k @ c # v \<and> c \<notin> set v \<and> LastIndex s c = int (length k)"
proof (induction s)
  case Nil
  then show ?case by simp
next
  case (Cons x xs)
  show ?case
  proof (cases "c \<in> set xs")
    case True
    with Cons.IH obtain k v where kv: "xs = k @ c # v" "c \<notin> set v" "LastIndex xs c = int (length k)"
      by blast
    then have "x # xs = (x # k) @ c # v \<and> c \<notin> set v \<and> LastIndex (x # xs) c = int (length (x # k))"
      by (simp add: Let_def)
    then show ?thesis by blast
  next
    case False
    with Cons.prems have xc: "x = c" by simp
    from False have "LastIndex xs c = - 1" by (rule LastIndex_absent)
    with xc False have "x # xs = [] @ c # xs \<and> c \<notin> set xs \<and> LastIndex (x # xs) c = int (length ([]::string))"
      by (simp add: Let_def)
    then show ?thesis by blast
  qed
qed

lemma split_at_last:
  assumes "c \<notin> set v"
  shows "rev (drop 1 (dropWhile (\<lambda>d. d \<noteq> c) (rev (k @ c # v)))) = k"
    and "rev (takeWhile (\<lambda>d. d \<noteq> c) (rev (k @ c # v))) = v"
proof -
  have r: "rev (k @ c # v) = rev v @ c # rev k" by simp
  have a: "\<forall>d\<in>set (rev v). d \<noteq> c" using assms by auto
  have "dropWhile (\<lambda>d. d \<noteq> c) (rev v @ c # rev k) = dropWhile (\<lambda>d. d \<noteq> c) (c # rev k)"
    by (rule dropWhile_append2) (use assms in auto)
  then show "rev (drop 1 (dropWhile (\<lambda>d. d \<noteq> c) (rev (k @ c # v)))) = k"
    unfolding r by simp
  have tw: "takeWhile (\<lambda>d. d \<noteq> c) (rev v) = rev v"
    using assms by (auto simp: takeWhile_eq_all_conv)
  show "rev (takeWhile (\<lambda>d. d \<noteq> c) (rev (k @ c # v))) = v"
    unfolding r using a by (simp add: takeWhile_tail tw)
qed

lemma parse_token_ok:
  assumes "CHR '':'' \<in> set t"
  shows "slice_to t (LastIndex t (CHR '':'')) = Some (before_last_colon t)"
    and "slice_from t (LastIndex t (CHR '':'') + 1) = Some (after_last_colon t)"
proof -
  from LastIndex_present [OF assms] obtain k v where
    kv: "t = k @ CHR '':'' # v" "CHR '':'' \<notin> set v" "LastIndex t (CHR '':'') = int (length k)"
    by blast
  show "slice_to t (LastIndex t (CHR '':'')) = Some (before_last_colon t)"
    using kv split_at_last(1) [OF kv(2), of k]
    by (simp add: slice_to_def before_last_colon_def)
  show "slice_from t (LastIndex t (CHR '':'') + 1) = Some (after_last_colon t)"
    using kv split_at_last(2) [OF kv(2), of k]
    by (simp add: slice_from_def after_last_colon_def nat_add_distrib)
qed

lemma parse_token_panic:
  "CHR '':'' \<notin> set t \<Longrightarrow> slice_to t (LastIndex t (CHR '':'')) = None"
  by (simp add: LastIndex_absent slice_to_def)

lemma parseLoop_None_iff:
  "parseLoop ts m = None \<longleftrightarrow> (\<exists>t\<in>set ts. CHR '':'' \<notin> set t)"
proof (induction ts arbitrary: m)
  case Nil
  then show ?case by simp
next
  case (Cons t ts)
  show ?case
  proof (cases "CHR '':'' \<in> set t")
    case True
    then show ?thesis using Cons.IH by (simp add: parse_token_ok)
  next
    case False
    then show ?thesis by (simp add: parse_token_panic)
  qed
qed

lemma parseLoop_Some:
  "\<forall>t\<in>set ts. CHR '':'' \<in> set t \<Longrightarrow>
   \<exists>r. parseLoop ts m = Some r \<and> map_of r = map_of (rev (map pattern_role ts) @ m)"
proof (induction ts arbitrary: m)
  case Nil
  then show ?case by simp
next
  case (Cons t ts)
  then have c: "CHR '':'' \<in> set t" and rest: "\<forall>t\<in>set ts. CHR '':'' \<in> set t" by simp_all
  let ?m' = "AList.update (before_last_colon t) (after_last_colon t) m"
  from Cons.IH [OF rest, of ?m'] obtain r where
    r: "parseLoop ts ?m' = Some r" "map_of r = map_of (rev (map pattern_role ts) @ ?m')"
    by blast
  have "map_of (rev (map pattern_role ts) @ ?m') = map_of (rev (map pattern_role (t # ts)) @ m)"
    by (rule ext) (simp add: map_add_def update_conv' pattern_role_def split: option.splits)
  with r c show ?case by (simp add: parse_token_ok)
qed

lemma fields_from_skip: "fields_from [] k s = fields_from [] 0 (drop k s)"
proof (induction s arbitrary: k)
  case Nil
  then show ?case by simp
next
  case (Cons c cs)
  show ?case
  proof (cases k)
    case 0
    then show ?thesis by simp
  next
    case (Suc j)
    with Cons.IH [of j] show ?thesis by simp
  qed
qed

lemma first_field_rest:
  "drop (length (first_field s)) s = [] \<or> 0 < space_width (drop (length (first_field s)) s)"
  by (induction s) auto

lemma fields_from_unfold:
  "fields_from cur 0 s =
     (if cur @ first_field s = [] then [] else [cur @ first_field s])
     @ fields_from [] 0 (drop (space_width (drop (length (first_field s)) s))
                          (drop (length (first_field s)) s))"
proof (induction s arbitrary: cur)
  case Nil
  then show ?case by simp
next
  case (Cons c cs)
  show ?case
  proof (cases "0 < space_width (c # cs)")
    case True
    then obtain w where w: "space_width (c # cs) = Suc w" by (cases "space_width (c # cs)") auto
    have "fields_from [] w cs = fields_from [] 0 (drop w cs)" by (rule fields_from_skip)
    with True w show ?thesis by (simp del: space_width.simps)
  next
    case False
    with Cons.IH [of "cur @ [c]"] show ?thesis by (simp del: space_width.simps)
  qed
qed

lemma fields_from_nonempty: "t \<in> set (fields_from cur k s) \<Longrightarrow> t \<noteq> []"
  by (induction cur k s rule: fields_from.induct) (auto simp del: space_width.simps split: if_splits)

lemma space_width_append: "0 < space_width xs \<Longrightarrow> space_width (xs @ ys) = space_width xs"
  by (cases xs) (auto split: list.splits if_splits)

lemma first_field_prefix: "first_field s @ drop (length (first_field s)) s = s"
  by (induction s) (auto simp del: space_width.simps)

lemma first_field_no_space:
  "i < length (first_field s) \<Longrightarrow> space_width (drop i (first_field s)) = 0"
proof (induction s arbitrary: i)
  case Nil
  then show ?case by simp
next
  case (Cons c cs)
  show ?case
  proof (cases "0 < space_width (c # cs)")
    case True
    with Cons.prems show ?thesis by (simp del: space_width.simps)
  next
    case False
    then have ff: "first_field (c # cs) = c # first_field cs" by (simp del: space_width.simps)
    show ?thesis
    proof (cases i)
      case 0
      have "space_width (c # first_field cs) = 0"
      proof (rule ccontr)
        assume "space_width (c # first_field cs) \<noteq> 0"
        then have "0 < space_width (c # first_field cs)" by simp
        from space_width_append [OF this, of "drop (length (first_field cs)) cs"]
        have "space_width (c # cs) = space_width (c # first_field cs)"
          by (simp add: first_field_prefix del: space_width.simps)
        with False \<open>0 < space_width (c # first_field cs)\<close> show False by simp
      qed
      with 0 ff show ?thesis by (simp del: space_width.simps)
    next
      case (Suc j)
      with Cons.prems ff have "j < length (first_field cs)" by simp
      from Cons.IH [OF this] Suc ff show ?thesis by (simp del: space_width.simps)
    qed
  qed
qed

lemma Fields_unfold:
  "Fields s =
     (if first_field s = [] then [] else [first_field s])
     @ Fields (drop (space_width (drop (length (first_field s)) s))
                 (drop (length (first_field s)) s))"
  using fields_from_unfold [of "[]" s] by (simp add: Fields_def)

lemma Fields_no_space:
  "t \<in> set (Fields s) \<Longrightarrow> i < length t \<Longrightarrow> space_width (drop i t) = 0"
proof (induction "length s" arbitrary: s rule: less_induct)
  case less
  let ?r = "drop (length (first_field s)) s"
  let ?s' = "drop (space_width ?r) ?r"
  from less.prems(1) have ne: "s \<noteq> []" by (auto simp: Fields_def)
  have shorter: "length ?s' < length s"
  proof (cases "first_field s = []")
    case True
    with first_field_rest [of s] ne have "0 < space_width s" by simp
    with True ne show ?thesis by simp
  next
    case False
    with ne show ?thesis by simp
  qed
  from less.prems(1) have "t = first_field s \<or> t \<in> set (Fields ?s')"
    by (subst (asm) Fields_unfold) (auto split: if_splits)
  then show ?case
  proof
    assume "t = first_field s"
    with less.prems(2) first_field_no_space show ?thesis by simp
  next
    assume "t \<in> set (Fields ?s')"
    from less.hyps [OF shorter this less.prems(2)] show ?thesis .
  qed
qed

lemma fields_nonempty: "t \<in> set (Fields s) \<Longrightarrow> t \<noteq> []"
  unfolding Fields_def by (rule fields_from_nonempty)

text \<open>
  Claim C10. \<^verbatim>\<open>parseOrgMapperConfig\<close> panics exactly when some white-space separated
  token of the input has no colon: for such a token the index of the last colon is
  \<open>-1\<close> and the slice \<^verbatim>\<open>split[:i]\<close> is out of range. The tokens are those of
  \<^verbatim>\<open>strings.Fields\<close>: the first field of the input, if it is not empty, followed by
  the fields of what comes after the white-space character that ends it; they are
  never empty and contain no white-space character. The empty input gives the empty
  map. When every token has a colon the result maps, for each token, the substring
  before its last colon to the substring after it (a later token overriding an
  earlier one with the same pattern).
\<close>

theorem parseOrgMapperConfig_total:
  "(parseOrgMapperConfig input = None \<longleftrightarrow> (\<exists>t\<in>set (Fields input). CHR '':'' \<notin> set t))
   \<and> (\<forall>t\<in>set (Fields input). t \<noteq> [] \<and> (\<forall>i<length t. space_width (drop i t) = 0))
   \<and> Fields input =
        (if first_field input = [] then [] else [first_field input])
        @ Fields (drop (space_width (drop (length (first_field input)) input))
                    (drop (length (first_field input)) input))
   \<and> (\<forall>t. CHR '':'' \<notin> set t \<longrightarrow>
          LastIndex t (CHR '':'') = - 1 \<and> slice_to t (LastIndex t (CHR '':'')) = None)
   \<and> parseOrgMapperConfig [] = Some []
   \<and> ((\<forall>t\<in>set (Fields input). CHR '':'' \<in> set t) \<longrightarrow>
        (\<exists>m. parseOrgMapperConfig input = Some m
           \<and> map_of m = map_of (rev (map pattern_role (Fields input)))))"
proof -
  have empty: "Fields [] = []" by (simp add: Fields_def)
  have a: "parseOrgMapperConfig input = None \<longleftrightarrow> (\<exists>t\<in>set (Fields input). CHR '':'' \<notin> set t)"
  proof (cases "input = []")
    case True
    then show ?thesis by (simp add: parseOrgMapperConfig_def empty)
  next
    case False
    then show ?thesis by (simp add: parseOrgMapperConfig_def parseLoop_None_iff)
  qed
  have b: "\<forall>t\<in>set (Fields input). t \<noteq> [] \<and> (\<forall>i<length t. space_width (drop i t) = 0)"
    using fields_nonempty Fields_no_space by blast
  have u: "Fields input =
        (if first_field input = [] then [] else [first_field input])
        @ Fields (drop (space_width (drop (length (first_field input)) input))
                    (drop (length (first_field input)) input))"
    by (rule Fields_unfold)
  have c: "\<forall>t. CHR '':'' \<notin> set t \<longrightarrow>
          LastIndex t (CHR '':'') = - 1 \<and> slice_to t (LastIndex t (CHR '':'')) = None"
    by (simp add: LastIndex_absent slice_to_def)
  have d: "parseOrgMapperConfig [] = Some []"
    by (simp add: parseOrgMapperConfig_def)
  have e: "(\<forall>t\<in>set (Fields input). CHR '':'' \<in> set t) \<longrightarrow>
        (\<exists>m. parseOrgMapperConfig input = Some m
           \<and> map_of m = map_of (rev (map pattern_role (Fields input))))"
  proof
    assume wf: "\<forall>t\<in>set (Fields input). CHR '':'' \<in> set t"
    show "\<exists>m. parseOrgMapperConfig input = Some m
           \<and> map_of m = map_of (rev (map pattern_role (Fields input)))"
    proof (cases "input = []")
      case True
      then show ?thesis by (simp add: parseOrgMapperConfig_def empty)
    next
      case False
      with parseLoop_Some [OF wf, of "[]"] show ?thesis
        by (simp add: parseOrgMapperConfig_def)
    qed
  qed
  from a b u c d e show ?thesis by (intro conjI)
qed

text \<open>
  An input without a colon, an input with a no-break space (U+00A0) between \<open>ab\<close> and
  \<open>c:d\<close>, where the token \<open>ab\<close> has no colon, and an input whose two tokens are
  separated by a tab and an ideographic space (U+3000) and where a zero-width space
  (U+200B), which is not white space, stays inside the role.
\<close>

theorem parseOrgMapperConfig_total_witness:
  "parseOrgMapperConfig ''abc'' = None
   \<and> Fields (''ab'' @ [CHR 0xC2, CHR 0xA0] @ ''c:d'') = [''ab'', ''c:d'']
   \<and> parseOrgMapperConfig (''ab'' @ [CHR 0xC2, CHR 0xA0] @ ''c:d'') = None
   \<and> (\<exists>m. parseOrgMapperConfig
          (''p:q:Editor'' @ [CHR 0x09, CHR 0xE3, CHR 0x80, CHR 0x80] @ ''r:V''
             @ [CHR 0xE2, CHR 0x80, CHR 0x8B] @ ''w '') = Some m
        \<and> map_of m = map_of [(''r'', ''V'' @ [CHR 0xE2, CHR 0x80, CHR 0x8B] @ ''w''),
                               (''p:q'', ''Editor'')])"
proof -
  let ?nb = "''ab'' @ [CHR 0xC2, CHR 0xA0] @ ''c:d''"
  let ?two = "''p:q:Editor'' @ [CHR 0x09, CHR 0xE3, CHR 0x80, CHR 0x80] @ ''r:V''
             @ [CHR 0xE2, CHR 0x80, CHR 0x8B] @ ''w ''"
  have f1: "Fields ''abc'' = [''abc'']"
    by (simp add: Fields_def asciiSpace_def)
  have f2: "Fields ?nb = [''ab'', ''c:d'']"
    by (simp add: Fields_def asciiSpace_def)
  have f3: "Fields ?two = [''p:q:Editor'', ''r:V'' @ [CHR 0xE2, CHR 0x80, CHR 0x8B] @ ''w'']"
    by (simp add: Fields_def asciiSpace_def)
  have p: "map pattern_role [''p:q:Editor'', ''r:V'' @ [CHR 0xE2, CHR 0x80, CHR 0x8B] @ ''w'']
      = [(''p:q'', ''Editor''), (''r'', ''V'' @ [CHR 0xE2, CHR 0x80, CHR 0x8B] @ ''w'')]"
    by (simp add: pattern_role_def before_last_colon_def after_last_colon_def)
  from parseOrgMapperConfig_total [of "''abc''", THEN conjunct1] f1
  have 1: "parseOrgMapperConfig ''abc'' = None" by simp
  from parseOrgMapperConfig_total [of ?nb, THEN conjunct1] f2
  have 2: "parseOrgMapperConfig ?nb = None" by simp
  from parseOrgMapperConfig_total [of ?two, THEN conjunct2, THEN conjunct2, THEN conjunct2,
      THEN conjunct2, THEN conjunct2]
  have 3: "\<exists>m. parseOrgMapperConfig ?two = Some m
        \<and> map_of m = map_of [(''r'', ''V'' @ [CHR 0xE2, CHR 0x80, CHR 0x8B] @ ''w''),
                               (''p:q'', ''Editor'')]"
    unfolding f3 p by simp
  from 1 f2 2 3 show ?thesis by (intro conjI)
qed

section \<open>Properties of extractRolesAndAdmin\<close>

lemma staticLoop_map:
  "map_of (staticLoop roles m) = map_of (rev (List.map_filter static_contribution roles) @ m)"
proof (induction roles arbitrary: m)
  case Nil
  then show ?case by (simp add: List.map_filter_simps)
next
  case (Cons role roles)
  show ?case
  proof (cases "static_contribution role")
    case None
    then have "staticLoop (role # roles) m = staticLoop roles m"
      by (auto simp: static_contribution_def Let_def split: list.splits if_splits)
    with None Cons.IH show ?thesis by (simp add: List.map_filter_simps)
  next
    case (Some kv)
    obtain k v where kv: "kv = (k, v)" by (cases kv)
    from Some kv have "staticLoop (role # roles) m = staticLoop roles (AList.update k v m)"
      by (auto simp: static_contribution_def Let_def split: list.splits if_splits)
    moreover have "map_of (rev (List.map_filter static_contribution roles) @ AList.update k v m)
        = map_of (rev (List.map_filter static_contribution roles) @ [(k, v)] @ m)"
      by (rule ext) (simp add: map_add_def update_conv' split: option.splits)
    ultimately show ?thesis using Some kv Cons.IH by (simp add: List.map_filter_simps)
  qed
qed

lemma namesLoop_None_indep:
  "namesLoop i names match g m = None \<longleftrightarrow> namesLoop i names match g' m' = None"
proof (induction names arbitrary: i m m')
  case Nil
  then show ?case by simp
next
  case (Cons name names)
  show ?case using Cons.IH by simp
qed

lemma namesLoop_map:
  "namesLoop i names match g m = Some m1 \<Longrightarrow>
   map_of m1 k = (if index_map m k \<noteq> [] then map_of m k
                  else if k \<in> set (captured_from i names match) then Some g
                  else map_of m k)"
proof (induction names arbitrary: i m)
  case Nil
  then show ?case by simp
next
  case (Cons name names)
  show ?case
  proof (cases "i \<noteq> 0 \<and> name = ''org''")
    case False
    with Cons.prems have "namesLoop (Suc i) names match g m = Some m1" by auto
    from Cons.IH [OF this] False show ?thesis by auto
  next
    case True
    with Cons.prems have lt: "i < length match" by (auto split: if_splits)
    show ?thesis
    proof (cases "index_map m (match ! i) = []")
      case False
      with True lt Cons.prems have "namesLoop (Suc i) names match g m = Some m1" by auto
      from Cons.IH [OF this] True lt False show ?thesis by auto
    next
      case e: True
      let ?m' = "AList.update (match ! i) g m"
      from True lt e Cons.prems have "namesLoop (Suc i) names match g ?m' = Some m1" by auto
      from Cons.IH [OF this] True lt e show ?thesis
        by (auto simp: index_map_def update_conv' split: option.splits if_splits)
    qed
  qed
qed

lemma captured_unfold:
  "Compile lib p = Some e \<Longrightarrow> FindStringSubmatch lib e s \<noteq> [] \<Longrightarrow>
   captured lib s p = captured_from 0 (SubexpNames lib e) (FindStringSubmatch lib e s)"
  by (simp add: captured_def)

lemma captured_nomatch:
  "Compile lib p = Some e \<Longrightarrow> FindStringSubmatch lib e s = [] \<Longrightarrow> captured lib s p = []"
  by (simp add: captured_def)

text \<open>One entry of the mapper, run on its own.\<close>

lemma patternLoop_single:
  "patternLoop lib s [(p, g)] m = Some m1 \<Longrightarrow>
   map_of m1 k = (if index_map m k \<noteq> [] then map_of m k
                  else if k \<in> set (captured lib s p) then Some g
                  else map_of m k)"
  by (auto simp: Let_def captured_def namesLoop_map split: option.splits if_splits)

lemma patternLoop_Cons:
  "patternLoop lib s (x # ps) m =
     (case patternLoop lib s [x] m of None \<Rightarrow> None | Some r \<Rightarrow> patternLoop lib s ps r)"
  by (cases x) (simp add: Let_def split: option.splits)

lemma patternLoop_single_None_indep:
  "patternLoop lib s [(p, g)] m = None \<longleftrightarrow> patternLoop lib s [(p, g')] m' = None"
proof (cases "Compile lib p")
  case None
  then show ?thesis by simp
next
  case (Some e)
  show ?thesis
    using Some namesLoop_None_indep [of 0 "SubexpNames lib e" "FindStringSubmatch lib e s" g m g' m']
    by (auto simp: Let_def split: option.splits)
qed

lemma patternLoop_None_iff:
  "patternLoop lib s ps m = None \<longleftrightarrow> (\<exists>x\<in>set ps. patternLoop lib s [x] [] = None)"
proof (induction ps arbitrary: m)
  case Nil
  then show ?case by simp
next
  case (Cons x ps)
  obtain p g where x: "x = (p, g)" by (cases x)
  have i: "patternLoop lib s [x] m = None \<longleftrightarrow> patternLoop lib s [x] [] = None"
    unfolding x by (rule patternLoop_single_None_indep)
  show ?case
  proof (cases "patternLoop lib s [x] m")
    case None
    with i show ?thesis by (simp add: patternLoop_Cons [of lib s x ps])
  next
    case (Some r)
    with i have "patternLoop lib s [x] [] \<noteq> None" by simp
    with Some Cons.IH [of r] show ?thesis
      by (auto simp: patternLoop_Cons [of lib s x ps])
  qed
qed

lemma patternLoop_miss:
  "patternLoop lib s ps m = Some m1 \<Longrightarrow>
   index_map m k \<noteq> [] \<or> (\<forall>(p, g)\<in>set ps. k \<notin> set (captured lib s p)) \<Longrightarrow>
   map_of m1 k = map_of m k"
proof (induction ps arbitrary: m)
  case Nil
  then show ?case by simp
next
  case (Cons x ps)
  obtain p g where x: "x = (p, g)" by (cases x)
  from Cons.prems(1) obtain r where r: "patternLoop lib s [(p, g)] m = Some r"
    and rest: "patternLoop lib s ps r = Some m1"
    unfolding x patternLoop_Cons [of lib s "(p, g)" ps] by (auto split: option.splits)
  from patternLoop_single [OF r, of k] Cons.prems(2)
  have same: "map_of r k = map_of m k" by (auto simp: x)
  then have "index_map r k = index_map m k" by (simp add: index_map_def)
  with Cons.prems(2) have "index_map r k \<noteq> [] \<or> (\<forall>(p, g)\<in>set ps. k \<notin> set (captured lib s p))"
    by auto
  from Cons.IH [OF rest this] same show ?case by simp
qed

lemma patternLoop_hit:
  "patternLoop lib s ps m = Some m1 \<Longrightarrow>
   \<forall>p g p' g'. (p, g) \<in> set ps \<longrightarrow> (p', g') \<in> set ps \<longrightarrow>
      k \<in> set (captured lib s p) \<longrightarrow> k \<in> set (captured lib s p') \<longrightarrow> g = g' \<Longrightarrow>
   (p, g) \<in> set ps \<Longrightarrow> k \<in> set (captured lib s p) \<Longrightarrow> index_map m k = [] \<Longrightarrow>
   map_of m1 k = Some g"
proof (induction ps arbitrary: m p g)
  case Nil
  then show ?case by simp
next
  case (Cons x ps)
  obtain p0 g0 where x: "x = (p0, g0)" by (cases x)
  from Cons.prems(1) obtain r where r: "patternLoop lib s [(p0, g0)] m = Some r"
    and rest: "patternLoop lib s ps r = Some m1"
    unfolding x patternLoop_Cons [of lib s "(p0, g0)" ps] by (auto split: option.splits)
  have agree: "\<forall>p g p' g'. (p, g) \<in> set ps \<longrightarrow> (p', g') \<in> set ps \<longrightarrow>
      k \<in> set (captured lib s p) \<longrightarrow> k \<in> set (captured lib s p') \<longrightarrow> g = g'"
    using Cons.prems(2) by (metis list.set_intros(2))
  note single = patternLoop_single [OF r, of k]
  show ?case
  proof (cases "k \<in> set (captured lib s p0)")
    case True
    have "(p0, g0) \<in> set (x # ps)" by (simp add: x)
    with Cons.prems(2,3,4) True have g0: "g0 = g" by blast
    from single True Cons.prems(5) g0 have rk: "map_of r k = Some g" by simp
    show ?thesis
    proof (cases "index_map r k \<noteq> [] \<or> (\<forall>(p, g)\<in>set ps. k \<notin> set (captured lib s p))")
      case True
      from patternLoop_miss [OF rest True] rk show ?thesis by simp
    next
      case False
      then have e: "index_map r k = []" and "\<exists>(p', g')\<in>set ps. k \<in> set (captured lib s p')"
        by auto
      then obtain p' g' where pg': "(p', g') \<in> set ps" "k \<in> set (captured lib s p')" by auto
      then have "(p', g') \<in> set (x # ps)" by simp
      with Cons.prems(2,3,4) pg'(2) have "g' = g" by blast
      with Cons.IH [OF rest agree pg' e] show ?thesis by simp
    qed
  next
    case False
    with Cons.prems(3,4) have mem: "(p, g) \<in> set ps" unfolding x by auto
    from single False have "map_of r k = map_of m k" by simp
    with Cons.prems(5) have "index_map r k = []" by (simp add: index_map_def)
    from Cons.IH [OF rest agree mem Cons.prems(4) this] show ?thesis .
  qed
qed

text \<open>One asserted role: the result as a map does not depend on the order.\<close>

lemma patternLoop_order:
  assumes sets: "set ps = set qs"
    and agree: "\<forall>(p, g)\<in>set ps. \<forall>(p', g')\<in>set ps.
      set (captured lib s p) \<inter> set (captured lib s p') \<noteq> {} \<longrightarrow> g = g'"
    and start: "map_of m = map_of m'"
  shows "map_option map_of (patternLoop lib s ps m) = map_option map_of (patternLoop lib s qs m')"
proof (cases "patternLoop lib s ps m")
  case None
  then have "patternLoop lib s qs m' = None"
    using sets by (simp add: patternLoop_None_iff [of lib s ps m] patternLoop_None_iff [of lib s qs m'])
  with None show ?thesis by simp
next
  case (Some a)
  then have "\<not> (\<exists>x\<in>set ps. patternLoop lib s [x] [] = None)"
    using patternLoop_None_iff [of lib s ps m] by simp
  with sets have "\<not> (\<exists>x\<in>set qs. patternLoop lib s [x] [] = None)" by simp
  then have "patternLoop lib s qs m' \<noteq> None"
    using patternLoop_None_iff [of lib s qs m'] by simp
  then obtain b where b: "patternLoop lib s qs m' = Some b" by auto
  have idx: "index_map m k = index_map m' k" for k
    using start by (simp add: index_map_def)
  have "map_of a k = map_of b k" for k
  proof (cases "index_map m k \<noteq> [] \<or> (\<forall>(p, g)\<in>set ps. k \<notin> set (captured lib s p))")
    case True
    then have "index_map m' k \<noteq> [] \<or> (\<forall>(p, g)\<in>set qs. k \<notin> set (captured lib s p))"
      using sets idx by simp
    from patternLoop_miss [OF Some True] patternLoop_miss [OF b this] start
    show ?thesis by simp
  next
    case False
    then obtain p g where e: "index_map m k = []" and pg: "(p, g) \<in> set ps" "k \<in> set (captured lib s p)"
      by auto
    have ag: "\<forall>p g p' g'. (p, g) \<in> set ps \<longrightarrow> (p', g') \<in> set ps \<longrightarrow>
      k \<in> set (captured lib s p) \<longrightarrow> k \<in> set (captured lib s p') \<longrightarrow> g = g'"
      using agree by fastforce
    then have ag': "\<forall>p g p' g'. (p, g) \<in> set qs \<longrightarrow> (p', g') \<in> set qs \<longrightarrow>
      k \<in> set (captured lib s p) \<longrightarrow> k \<in> set (captured lib s p') \<longrightarrow> g = g'"
      using sets by simp
    from pg sets have pg': "(p, g) \<in> set qs" by simp
    from e idx have e': "index_map m' k = []" by simp
    from patternLoop_hit [OF Some ag pg e] patternLoop_hit [OF b ag' pg' pg(2) e']
    show ?thesis by simp
  qed
  then have "map_of a = map_of b" by (rule ext)
  with Some b show ?thesis by simp
qed

lemma regexLoop_order:
  assumes "\<forall>k. set (visit k) = set mapper" and "\<forall>k. set (visit' k) = set mapper"
    and "conflict_free lib mapper roles" and "map_of m = map_of m'"
  shows "map_option map_of (regexLoop lib visit k roles m)
       = map_option map_of (regexLoop lib visit' k roles m')"
  using assms(3,4)
proof (induction roles arbitrary: k m m')
  case Nil
  then show ?case by simp
next
  case (Cons s roles)
  have sets: "set (visit k) = set (visit' k)" using assms(1,2) by simp
  have agree: "\<forall>(p, g)\<in>set (visit k). \<forall>(p', g')\<in>set (visit k).
      set (captured lib s p) \<inter> set (captured lib s p') \<noteq> {} \<longrightarrow> g = g'"
    using Cons.prems(1) assms(1) by (simp add: conflict_free_def)
  have cf: "conflict_free lib mapper roles"
    using Cons.prems(1) by (simp add: conflict_free_def)
  note one = patternLoop_order [OF sets agree Cons.prems(2)]
  show ?case
  proof (cases "patternLoop lib s (visit k) m")
    case None
    with one show ?thesis by simp
  next
    case (Some a)
    with one obtain b where b: "patternLoop lib s (visit' k) m' = Some b" "map_of a = map_of b"
      by (cases "patternLoop lib s (visit' k) m'") auto
    from Cons.IH [OF cf b(2)] Some b(1) show ?thesis by simp
  qed
qed

lemma regexLoop_stable:
  "regexLoop lib visit k roles m = Some m1 \<Longrightarrow> index_map m org \<noteq> [] \<Longrightarrow>
   map_of m1 org = map_of m org"
proof (induction roles arbitrary: k m)
  case Nil
  then show ?case by simp
next
  case (Cons s roles)
  from Cons.prems(1) obtain r where r: "patternLoop lib s (visit k) m = Some r"
    and rest: "regexLoop lib visit (Suc k) roles r = Some m1"
    by (auto split: option.splits)
  from patternLoop_miss [OF r, of org] Cons.prems(2) have same: "map_of r org = map_of m org"
    by simp
  with Cons.prems(2) have "index_map r org \<noteq> []" by (simp add: index_map_def)
  from Cons.IH [OF rest this] same show ?case by simp
qed

text \<open>
  Claim C6. On the static branch (a role attribute path, no regex mapper, the search
  returning the asserted roles) \<^verbatim>\<open>extractRolesAndAdmin\<close> returns the map in which
  exactly the strings that split on the colon into three parts, the last being
  \<open>admin\<close> or \<open>viewer\<close>, contribute: each maps its middle part to Editor or to Viewer,
  a later string overriding an earlier one for the same organization; every other
  string is ignored and the admin flag is false. The input
  \<open>["x:teamA:admin", "x:teamB:viewer", "bad"]\<close> gives \<open>{teamA: Editor, teamB: Viewer}\<close>.
\<close>

theorem static_roles_extraction:
  "(RoleAttributePath cfg \<noteq> [] \<and> RegexOrgRoleMapper cfg = []
      \<and> search (RoleAttributePath cfg) claims = Inr roles \<longrightarrow>
      (\<exists>m. extractRolesAndAdmin lib search visit cfg claims = Some (m, False)
         \<and> map_of m = map_of (rev (List.map_filter static_contribution roles))))
   \<and> staticLoop [''x:teamA:admin'', ''x:teamB:viewer'', ''bad''] []
        = [(''teamA'', RoleEditor), (''teamB'', RoleViewer)]"
proof -
  have "map_of (staticLoop roles []) = map_of (rev (List.map_filter static_contribution roles))"
    using staticLoop_map [of roles "[]"] by simp
  then have a: "RoleAttributePath cfg \<noteq> [] \<and> RegexOrgRoleMapper cfg = []
      \<and> search (RoleAttributePath cfg) claims = Inr roles \<longrightarrow>
      (\<exists>m. extractRolesAndAdmin lib search visit cfg claims = Some (m, False)
         \<and> map_of m = map_of (rev (List.map_filter static_contribution roles)))"
    by (cases roles) (auto simp: extractRolesAndAdmin_def List.map_filter_simps)
  have b: "staticLoop [''x:teamA:admin'', ''x:teamB:viewer'', ''bad''] []
        = [(''teamA'', RoleEditor), (''teamB'', RoleViewer)]"
    by (simp add: Let_def)
  from a b show ?thesis by blast
qed

theorem static_roles_extraction_witness:
  "\<exists>m. extractRolesAndAdmin frag_lib search_roles (\<lambda>k. []) cfg_static
          [''x:teamA:admin'', ''y:teamA:viewer'', ''x:teamB:editor'', ''a:b:c:admin'']
        = Some (m, False)
      \<and> map_of m = map_of [(''teamA'', ''Viewer''), (''teamA'', ''Editor'')]"
  using static_roles_extraction [of cfg_static search_roles
      "[''x:teamA:admin'', ''y:teamA:viewer'', ''x:teamB:editor'', ''a:b:c:admin'']"
      "[''x:teamA:admin'', ''y:teamA:viewer'', ''x:teamB:editor'', ''a:b:c:admin'']"
      frag_lib "\<lambda>k. []"]
  by (simp add: cfg_static_def search_roles_def List.map_filter_simps static_contribution_def
      RoleEditor_def RoleViewer_def)

text \<open>
  Claim C5, as stated, fails. With the mapper \<open>{(?P<org>a): Editor, (?P<org>.): Viewer}\<close>
  and the asserted role \<open>a\<close>, both patterns capture the organization \<open>a\<close>; the run
  whose range visits \<open>(?P<org>a)\<close> first gives \<open>{a: Editor}\<close>, the run that visits
  \<open>(?P<org>.)\<close> first gives \<open>{a: Viewer}\<close>. Both orders are orders of the same map.
\<close>

theorem regex_roles_order_counterexample:
  "extractRolesAndAdmin frag_lib search_roles (\<lambda>k. mapper_a_dot) cfg_a_dot [''a'']
     = Some ([(''a'', ''Editor'')], False)
   \<and> extractRolesAndAdmin frag_lib search_roles (\<lambda>k. mapper_dot_a) cfg_a_dot [''a'']
     = Some ([(''a'', ''Viewer'')], False)
   \<and> mset mapper_dot_a = mset (RegexOrgRoleMapper cfg_a_dot)
   \<and> mset mapper_a_dot = mset (RegexOrgRoleMapper cfg_a_dot)"
  by (simp add: extractRolesAndAdmin_def search_roles_def cfg_a_dot_def mapper_a_dot_def
      mapper_dot_a_def frag_lib_def index_map_def)

lemma extract_regex_branch:
  "RoleAttributePath cfg \<noteq> [] \<Longrightarrow> search (RoleAttributePath cfg) claims = Inr roles \<Longrightarrow>
   roles \<noteq> [] \<Longrightarrow> RegexOrgRoleMapper cfg \<noteq> [] \<Longrightarrow>
   extractRolesAndAdmin lib search visit cfg claims
     = map_option (\<lambda>r. (r, False)) (regexLoop lib visit 0 roles [])"
  by (simp add: extractRolesAndAdmin_def split: option.splits)

lemma extract_other_branch:
  "RoleAttributePath cfg = [] \<or> search (RoleAttributePath cfg) claims = Inl e
     \<or> search (RoleAttributePath cfg) claims = Inr [] \<or> RegexOrgRoleMapper cfg = [] \<Longrightarrow>
   extractRolesAndAdmin lib search visit cfg claims
     = extractRolesAndAdmin lib search visit' cfg claims"
  by (auto simp: extractRolesAndAdmin_def split: sum.splits)

text \<open>
  Claim C5, amended. When no two entries of the mapper capture the same organization
  from the same asserted role with different target roles, the result of
  \<^verbatim>\<open>extractRolesAndAdmin\<close> (as a map, with the admin flag, or the panic) is the
  same for every order in which the range statements visit the mapper. In every
  order, an organization that already has a non-empty role keeps it: later matches
  for it are ignored.
\<close>

theorem regex_roles_deterministic:
  assumes "\<forall>k. mset (visit k) = mset (RegexOrgRoleMapper cfg)"
    and "\<forall>k. mset (visit' k) = mset (RegexOrgRoleMapper cfg)"
    and "\<forall>roles. search (RoleAttributePath cfg) claims = Inr roles \<longrightarrow>
           conflict_free lib (RegexOrgRoleMapper cfg) roles"
  shows "map_option (\<lambda>(r, a). (map_of r, a)) (extractRolesAndAdmin lib search visit cfg claims)
       = map_option (\<lambda>(r, a). (map_of r, a)) (extractRolesAndAdmin lib search visit' cfg claims)
     \<and> (\<forall>k roles m m1 org. regexLoop lib visit k roles m = Some m1 \<longrightarrow> index_map m org \<noteq> []
          \<longrightarrow> map_of m1 org = map_of m org)"
proof
  have v: "\<forall>k. set (visit k) = set (RegexOrgRoleMapper cfg)"
    using assms(1) mset_eq_setD by blast
  have v': "\<forall>k. set (visit' k) = set (RegexOrgRoleMapper cfg)"
    using assms(2) mset_eq_setD by blast
  show "map_option (\<lambda>(r, a). (map_of r, a)) (extractRolesAndAdmin lib search visit cfg claims)
       = map_option (\<lambda>(r, a). (map_of r, a)) (extractRolesAndAdmin lib search visit' cfg claims)"
  proof (cases "search (RoleAttributePath cfg) claims")
    case (Inl e)
    then show ?thesis using extract_other_branch [of cfg search claims e lib visit visit'] by simp
  next
    case (Inr roles)
    show ?thesis
    proof (cases "RoleAttributePath cfg = [] \<or> roles = [] \<or> RegexOrgRoleMapper cfg = []")
      case True
      with Inr show ?thesis
        using extract_other_branch [of cfg search claims undefined lib visit visit'] by auto
    next
      case False
      from Inr assms(3) have cf: "conflict_free lib (RegexOrgRoleMapper cfg) roles" by simp
      have eq: "map_option map_of (regexLoop lib visit 0 roles [])
          = map_option map_of (regexLoop lib visit' 0 roles [])"
        by (rule regexLoop_order [OF v v' cf]) simp
      from False Inr have a: "extractRolesAndAdmin lib search visit cfg claims
          = map_option (\<lambda>r. (r, False)) (regexLoop lib visit 0 roles [])"
        and b: "extractRolesAndAdmin lib search visit' cfg claims
          = map_option (\<lambda>r. (r, False)) (regexLoop lib visit' 0 roles [])"
        by (simp_all add: extract_regex_branch)
      show ?thesis
      proof (cases "regexLoop lib visit 0 roles []")
        case None
        with eq have "regexLoop lib visit' 0 roles [] = None" by simp
        with None a b show ?thesis by simp
      next
        case (Some r)
        with eq obtain r' where "regexLoop lib visit' 0 roles [] = Some r'" "map_of r = map_of r'"
          by (cases "regexLoop lib visit' 0 roles []") auto
        with Some a b show ?thesis by simp
      qed
    qed
  qed
  show "\<forall>k roles m m1 org. regexLoop lib visit k roles m = Some m1 \<longrightarrow> index_map m org \<noteq> []
          \<longrightarrow> map_of m1 org = map_of m org"
    using regexLoop_stable by blast
qed

theorem regex_roles_deterministic_witness:
  "map_option (\<lambda>(r, a). (map_of r, a))
      (extractRolesAndAdmin frag_lib search_roles (\<lambda>k. mapper_a_dot) cfg_a_dot [''b''])
   = map_option (\<lambda>(r, a). (map_of r, a))
      (extractRolesAndAdmin frag_lib search_roles (\<lambda>k. mapper_dot_a) cfg_a_dot [''b''])
   \<and> extractRolesAndAdmin frag_lib search_roles (\<lambda>k. mapper_dot_a) cfg_a_dot [''b'']
       = Some ([(''b'', ''Viewer'')], False)
   \<and> (\<exists>m1. regexLoop frag_lib (\<lambda>k. mapper_a_dot) 0 [''a''] [(''a'', ''Admin'')] = Some m1
        \<and> map_of m1 ''a'' = Some ''Admin'')"
proof -
  have h1: "\<forall>k::nat. mset ((\<lambda>k. mapper_a_dot) k) = mset (RegexOrgRoleMapper cfg_a_dot)"
    by (simp add: cfg_a_dot_def)
  have h2: "\<forall>k::nat. mset ((\<lambda>k. mapper_dot_a) k) = mset (RegexOrgRoleMapper cfg_a_dot)"
    by (simp add: cfg_a_dot_def mapper_a_dot_def mapper_dot_a_def)
  have h3: "\<forall>roles. search_roles (RoleAttributePath cfg_a_dot) [''b''] = Inr roles \<longrightarrow>
           conflict_free frag_lib (RegexOrgRoleMapper cfg_a_dot) roles"
    by (simp add: search_roles_def conflict_free_def cfg_a_dot_def mapper_a_dot_def
        captured_def frag_lib_def)
  have e: "extractRolesAndAdmin frag_lib search_roles (\<lambda>k. mapper_dot_a) cfg_a_dot [''b'']
       = Some ([(''b'', ''Viewer'')], False)"
    by (simp add: extractRolesAndAdmin_def search_roles_def cfg_a_dot_def mapper_a_dot_def
      mapper_dot_a_def frag_lib_def index_map_def)
  have r: "regexLoop frag_lib (\<lambda>k. mapper_a_dot) 0 [''a''] [(''a'', ''Admin'')]
      = Some [(''a'', ''Admin'')]"
    by (simp add: mapper_a_dot_def frag_lib_def index_map_def)
  note t = regex_roles_deterministic [where visit = "\<lambda>k. mapper_a_dot"
      and visit' = "\<lambda>k. mapper_dot_a" and cfg = cfg_a_dot and search = search_roles
      and claims = "[''b'']" and lib = frag_lib, OF h1 h2 h3]
  from t e r show ?thesis by simp
qed

section \<open>Properties of the anonymous client\<close>

lemma Authenticate_cases:
  "Authenticate svc cfg r s =
     (case snd (GetByName svc (AnonymousOrgName cfg) s) of
        Some err \<Rightarrow> (Fail err, s)
      | None \<Rightarrow>
          (if device_limit_hit svc r s
           then (Fail (the (fst (TagDevice svc (httpReqCopy r) s))),
                 snd (TagDevice svc (httpReqCopy r) s))
           else (case fst (GetByName svc (AnonymousOrgName cfg) s) of
                   None \<Rightarrow> (Panic, snd (TagDevice svc (httpReqCopy r) s))
                 | Some org \<Rightarrow> (Return (newAnonymousIdentity cfg org),
                     snd (TagDevice svc (httpReqCopy r) s)))))"
  by (auto simp: Authenticate_def device_limit_hit_def split: prod.splits option.splits)

text \<open>
  Claim C7. \<^verbatim>\<open>Anonymous.Authenticate\<close> returns an error exactly when the lookup of the
  configured organization by name returns an error, or when tagging the device fails
  with the device-limit error. A failed lookup returns its error without tagging a
  device. When the organization is found, any other outcome of the tagging is ignored
  and the identity returned has the anonymous namespace id, the id and the name of
  the organization found, the configured role for that organization and
  \<open>SyncPermissions\<close> set.
\<close>

theorem anonymous_authenticate:
  "((\<exists>e. fst (Authenticate svc cfg r s) = Fail e) \<longleftrightarrow>
      (snd (GetByName svc (AnonymousOrgName cfg) s) \<noteq> None \<or> device_limit_hit svc r s))
   \<and> (snd (GetByName svc (AnonymousOrgName cfg) s) = Some err \<longrightarrow>
        Authenticate svc cfg r s = (Fail err, s))
   \<and> (GetByName svc (AnonymousOrgName cfg) s = (Some org, None) \<and> \<not> device_limit_hit svc r s \<longrightarrow>
        fst (Authenticate svc cfg r s) = Return (newAnonymousIdentity cfg org)
        \<and> ID (newAnonymousIdentity cfg org) = AnonymousNamespaceID
        \<and> namespace (ID (newAnonymousIdentity cfg org)) = NamespaceAnonymous
        \<and> OrgID (newAnonymousIdentity cfg org) = Org_ID org
        \<and> OrgName (newAnonymousIdentity cfg org) = Org_Name org
        \<and> OrgRoles (newAnonymousIdentity cfg org) = [(Org_Name org, AnonymousOrgRole cfg)]
        \<and> SyncPermissions (ClientParams (newAnonymousIdentity cfg org)))"
proof -
  have a: "(\<exists>e. fst (Authenticate svc cfg r s) = Fail e) \<longleftrightarrow>
      (snd (GetByName svc (AnonymousOrgName cfg) s) \<noteq> None \<or> device_limit_hit svc r s)"
    unfolding Authenticate_cases by (auto split: option.splits)
  have b: "snd (GetByName svc (AnonymousOrgName cfg) s) = Some err \<longrightarrow>
        Authenticate svc cfg r s = (Fail err, s)"
    unfolding Authenticate_cases by simp
  have c: "GetByName svc (AnonymousOrgName cfg) s = (Some org, None) \<and> \<not> device_limit_hit svc r s \<longrightarrow>
        fst (Authenticate svc cfg r s) = Return (newAnonymousIdentity cfg org)"
    unfolding Authenticate_cases by simp
  have d: "ID (newAnonymousIdentity cfg org) = AnonymousNamespaceID
        \<and> namespace (ID (newAnonymousIdentity cfg org)) = NamespaceAnonymous
        \<and> OrgID (newAnonymousIdentity cfg org) = Org_ID org
        \<and> OrgName (newAnonymousIdentity cfg org) = Org_Name org
        \<and> OrgRoles (newAnonymousIdentity cfg org) = [(Org_Name org, AnonymousOrgRole cfg)]
        \<and> SyncPermissions (ClientParams (newAnonymousIdentity cfg org))"
    by (simp add: newAnonymousIdentity_def AnonymousNamespaceID_def)
  from a b c d show ?thesis by blast
qed

theorem anonymous_authenticate_witness:
  "fst (Authenticate store_services (anon_cfg ''A'') no_request store_last_admin)
     = Return (newAnonymousIdentity (anon_cfg ''A'') org_A)
   \<and> Authenticate store_services (anon_cfg ''C'') no_request store_last_admin
     = (Fail ErrOrgNotFound, store_last_admin)
   \<and> (\<exists>e. fst (Authenticate store_services (anon_cfg ''A'') no_request store_two_admins) = Fail e)"
proof -
  have g: "GetByName store_services (AnonymousOrgName (anon_cfg ''A'')) store_last_admin
      = (Some org_A, None)"
    by (simp add: store_services_def store_GetByName_def anon_cfg_def store_last_admin_def
        org_A_def org_B_def)
  have n: "\<not> device_limit_hit store_services no_request store_last_admin"
    by (simp add: device_limit_hit_def store_services_def store_TagDevice_def
        store_last_admin_def)
  have c: "snd (GetByName store_services (AnonymousOrgName (anon_cfg ''C'')) store_last_admin)
      = Some ErrOrgNotFound"
    by (simp add: store_services_def store_GetByName_def anon_cfg_def store_last_admin_def
        org_A_def org_B_def)
  have h: "device_limit_hit store_services no_request store_two_admins"
    by (simp add: device_limit_hit_def store_services_def store_TagDevice_def
        store_two_admins_def)
  from anonymous_authenticate [of store_services "anon_cfg ''A''" no_request store_last_admin
      ErrOrgNotFound org_A] g n
  have 1: "fst (Authenticate store_services (anon_cfg ''A'') no_request store_last_admin)
     = Return (newAnonymousIdentity (anon_cfg ''A'') org_A)" by simp
  from anonymous_authenticate [of store_services "anon_cfg ''C''" no_request store_last_admin
      ErrOrgNotFound org_A] c
  have 2: "Authenticate store_services (anon_cfg ''C'') no_request store_last_admin
     = (Fail ErrOrgNotFound, store_last_admin)" by simp
  from anonymous_authenticate [of store_services "anon_cfg ''A''" no_request store_two_admins
      ErrOrgNotFound org_A] h
  have 3: "\<exists>e. fst (Authenticate store_services (anon_cfg ''A'') no_request store_two_admins) = Fail e"
    by simp
  from 1 2 3 show ?thesis by blast
qed

text \<open>
  Claim C8, as stated, fails: a supplied namespaced id that is not the anonymous
  constant does not always give the invalid-identifier error. The configured
  organization is \<open>A\<close>, with id 2; with the organization id 1 and the namespaced id of
  user 7, both checks would fail, and the error returned is the invalid-organization
  error of the first check.
\<close>

theorem anonymous_resolve_identity_counterexample:
  "\<lparr> namespace = NamespaceUser, ident = ''7'' \<rparr> \<noteq> AnonymousNamespaceID
   \<and> ResolveIdentity store_services (anon_cfg ''A'') 1
        \<lparr> namespace = NamespaceUser, ident = ''7'' \<rparr> store_last_admin
     = Fail (Errorf errInvalidOrg ''anonymous user cannot authenticate in org %d'' [2])
   \<and> \<not> errors_Is (Errorf errInvalidOrg ''anonymous user cannot authenticate in org %d'' [2])
          errInvalidID"
  by (simp add: ResolveIdentity_def AnonymousNamespaceID_def store_services_def
      store_GetByName_def anon_cfg_def store_last_admin_def org_A_def org_B_def)

text \<open>
  Claim C8, amended. With the configured organization found, \<^verbatim>\<open>Anonymous.ResolveIdentity\<close>
  fails with the invalid-organization error when the supplied organization id is not
  the id of that organization; it fails when the supplied namespaced id is not the
  anonymous constant, with the invalid-identifier error once the organization id has
  passed its check, which comes first, and with the invalid-organization error
  otherwise. It succeeds exactly when both checks pass, and then returns the identity
  that \<^verbatim>\<open>Authenticate\<close> returns in the same state whenever \<^verbatim>\<open>Authenticate\<close> succeeds (it
  can only fail there with the device limit).
\<close>

theorem anonymous_resolve_identity:
  "(GetByName svc (AnonymousOrgName cfg) s = (Some org, None) \<and> Org_ID org \<noteq> orgID \<longrightarrow>
      (\<exists>e. ResolveIdentity svc cfg orgID nsid s = Fail e \<and> errors_Is e errInvalidOrg))
   \<and> (GetByName svc (AnonymousOrgName cfg) s = (Some org, None) \<and> nsid \<noteq> AnonymousNamespaceID \<longrightarrow>
      (\<exists>e. ResolveIdentity svc cfg orgID nsid s = Fail e
         \<and> (if Org_ID org = orgID then e = errInvalidID else errors_Is e errInvalidOrg)))
   \<and> (ResolveIdentity svc cfg orgID nsid s = Return idn \<longleftrightarrow>
        (\<exists>org'. GetByName svc (AnonymousOrgName cfg) s = (Some org', None) \<and> Org_ID org' = orgID
           \<and> nsid = AnonymousNamespaceID \<and> idn = newAnonymousIdentity cfg org'))
   \<and> (ResolveIdentity svc cfg orgID nsid s = Return idn \<longrightarrow>
        (fst (Authenticate svc cfg r s) = Return idn
         \<or> (\<exists>e. fst (Authenticate svc cfg r s) = Fail e \<and> errors_Is e ErrDeviceLimitReached)))"
proof -
  have a: "GetByName svc (AnonymousOrgName cfg) s = (Some org, None) \<and> Org_ID org \<noteq> orgID \<longrightarrow>
      (\<exists>e. ResolveIdentity svc cfg orgID nsid s = Fail e \<and> errors_Is e errInvalidOrg)"
    by (simp add: ResolveIdentity_def)
  have b: "GetByName svc (AnonymousOrgName cfg) s = (Some org, None) \<and> nsid \<noteq> AnonymousNamespaceID \<longrightarrow>
      (\<exists>e. ResolveIdentity svc cfg orgID nsid s = Fail e
         \<and> (if Org_ID org = orgID then e = errInvalidID else errors_Is e errInvalidOrg))"
    by (simp add: ResolveIdentity_def)
  have c: "ResolveIdentity svc cfg orgID nsid s = Return idn \<longleftrightarrow>
        (\<exists>org'. GetByName svc (AnonymousOrgName cfg) s = (Some org', None) \<and> Org_ID org' = orgID
           \<and> nsid = AnonymousNamespaceID \<and> idn = newAnonymousIdentity cfg org')"
    by (auto simp: ResolveIdentity_def split: prod.splits option.splits if_splits)
  have d: "ResolveIdentity svc cfg orgID nsid s = Return idn \<longrightarrow>
        (fst (Authenticate svc cfg r s) = Return idn
         \<or> (\<exists>e. fst (Authenticate svc cfg r s) = Fail e \<and> errors_Is e ErrDeviceLimitReached))"
  proof
    assume "ResolveIdentity svc cfg orgID nsid s = Return idn"
    with c obtain org' where g: "GetByName svc (AnonymousOrgName cfg) s = (Some org', None)"
      and i: "idn = newAnonymousIdentity cfg org'" by blast
    show "fst (Authenticate svc cfg r s) = Return idn
         \<or> (\<exists>e. fst (Authenticate svc cfg r s) = Fail e \<and> errors_Is e ErrDeviceLimitReached)"
      unfolding Authenticate_cases using g i
      by (auto simp: device_limit_hit_def split: option.splits)
  qed
  from a b c d show ?thesis by blast
qed

theorem anonymous_resolve_identity_witness:
  "(\<exists>e. ResolveIdentity store_services (anon_cfg ''A'') 1 AnonymousNamespaceID store_last_admin
          = Fail e \<and> errors_Is e errInvalidOrg)
   \<and> ResolveIdentity store_services (anon_cfg ''A'') 2
        \<lparr> namespace = NamespaceUser, ident = ''7'' \<rparr> store_last_admin = Fail errInvalidID
   \<and> ResolveIdentity store_services (anon_cfg ''A'') 2 AnonymousNamespaceID store_last_admin
        = Return (newAnonymousIdentity (anon_cfg ''A'') org_A)
   \<and> fst (Authenticate store_services (anon_cfg ''A'') no_request store_last_admin)
        = Return (newAnonymousIdentity (anon_cfg ''A'') org_A)"
proof -
  have g: "GetByName store_services (AnonymousOrgName (anon_cfg ''A'')) store_last_admin
      = (Some org_A, None)"
    by (simp add: store_services_def store_GetByName_def anon_cfg_def store_last_admin_def
        org_A_def org_B_def)
  have i: "Org_ID org_A = 2" by (simp add: org_A_def)
  have n: "\<not> device_limit_hit store_services no_request store_last_admin"
    by (simp add: device_limit_hit_def store_services_def store_TagDevice_def
        store_last_admin_def)
  have ns: "\<lparr> namespace = NamespaceUser, ident = ''7'' \<rparr> \<noteq> AnonymousNamespaceID"
    by (simp add: AnonymousNamespaceID_def)
  from anonymous_resolve_identity [of store_services "anon_cfg ''A''" store_last_admin org_A 1
      AnonymousNamespaceID Identity_zero no_request] g i
  have 1: "\<exists>e. ResolveIdentity store_services (anon_cfg ''A'') 1 AnonymousNamespaceID store_last_admin
          = Fail e \<and> errors_Is e errInvalidOrg" by simp
  from anonymous_resolve_identity [of store_services "anon_cfg ''A''" store_last_admin org_A 2
      "\<lparr> namespace = NamespaceUser, ident = ''7'' \<rparr>" Identity_zero no_request] g i ns
  have 2: "ResolveIdentity store_services (anon_cfg ''A'') 2
        \<lparr> namespace = NamespaceUser, ident = ''7'' \<rparr> store_last_admin = Fail errInvalidID"
    by simp
  note t = anonymous_resolve_identity [of store_services "anon_cfg ''A''" store_last_admin org_A 2
      AnonymousNamespaceID "newAnonymousIdentity (anon_cfg ''A'') org_A" no_request]
  from t g i
  have 3: "ResolveIdentity store_services (anon_cfg ''A'') 2 AnonymousNamespaceID store_last_admin
        = Return (newAnonymousIdentity (anon_cfg ''A'') org_A)" by simp
  have nf: "\<not> (\<exists>e. fst (Authenticate store_services (anon_cfg ''A'') no_request store_last_admin) = Fail e)"
    unfolding Authenticate_cases using g n by simp
  from t 3 nf
  have 4: "fst (Authenticate store_services (anon_cfg ''A'') no_request store_last_admin)
        = Return (newAnonymousIdentity (anon_cfg ''A'') org_A)" by blast
  from 1 2 3 4 show ?thesis by blast
qed

section \<open>Properties of the role sync\<close>

text \<open>
  Claim C4. When the asserted \<open>OrgRoles\<close> of the identity are empty, the hook returns
  no error and leaves the identity and the persisted state as they were, whatever the
  services are: it calls none of the operations that change state, so no membership is
  updated, added or removed.
\<close>

theorem sync_no_roles_no_mutation:
  "OrgRoles id' = [] \<Longrightarrow> SyncOrgRolesHook svc id' s = (Return (), id', s)"
  by (simp add: SyncOrgRolesHook_def split: option.splits)

theorem sync_no_roles_no_mutation_witness:
  "SyncOrgRolesHook (recording_services no_faults admin_of_B) (user_identity ''7'' 1 ''B'' []) []
     = (Return (), user_identity ''7'' 1 ''B'' [], [])
   \<and> SyncOrgRoles (ClientParams (user_identity ''7'' 1 ''B'' []))
   \<and> fst (GetUserOrgList (recording_services no_faults admin_of_B) 7 []) = admin_of_B"
proof -
  have "OrgRoles (user_identity ''7'' 1 ''B'' []) = []"
    by (simp add: user_identity_def Identity_zero_def)
  from sync_no_roles_no_mutation [OF this, of "recording_services no_faults admin_of_B" "[]"]
  show ?thesis
    by (simp add: user_identity_def recording_services_def)
qed

lemma updateLoop_no_panic:
  "\<forall>orga\<in>set result. \<forall>s'. fst (GetByID svc (DTO_OrgID orga) s') \<noteq> None \<Longrightarrow>
   fst (updateLoop svc id' userID result h d s) \<noteq> Panic"
proof (induction result arbitrary: h d s)
  case Nil
  then show ?case by simp
next
  case (Cons orga rest)
  from Cons.prems obtain orgb where b: "fst (GetByID svc (DTO_OrgID orga) s) = Some orgb"
    by fastforce
  from Cons.prems have r: "\<forall>orga\<in>set rest. \<forall>s'. fst (GetByID svc (DTO_OrgID orga) s') \<noteq> None"
    by simp
  show ?case
    using b Cons.IH [OF r]
    by (simp add: Let_def split: prod.splits option.splits)
qed

lemma addLoop_no_panic: "fst (addLoop svc userID h roles orgIDs s) \<noteq> Panic"
proof (induction roles arbitrary: orgIDs s)
  case Nil
  then show ?case by simp
next
  case (Cons x rest)
  obtain orgName orgRole where x: "x = (orgName, orgRole)" by (cases x)
  show ?case
    using Cons.IH by (simp add: x Let_def split: prod.splits option.splits)
qed

lemma removeLoop_no_panic: "fst (removeLoop svc userID del s) \<noteq> Panic"
proof (induction del arbitrary: s)
  case Nil
  then show ?case by simp
next
  case (Cons orgID rest)
  show ?case
    using Cons.IH by (simp split: prod.splits option.splits)
qed

lemma updateDefaultOrg_no_panic: "fst (updateDefaultOrg svc id' userID orgIDs s) \<noteq> Panic"
  by (simp add: updateDefaultOrg_def Let_def split: list.splits prod.splits option.splits)

lemma syncMemberships_Panic:
  "fst (syncMemberships svc id' userID result s) = Panic \<longleftrightarrow>
   fst (updateLoop svc id' userID result {} [] s) = Panic"
proof (cases "updateLoop svc id' userID result {} [] s")
  case (Pair r1 s1)
  show ?thesis
  proof (cases r1)
    case (Return hd)
    obtain h d where hd: "hd = (h, d)" by (cases hd)
    obtain r2 s2 where a: "addLoop svc userID h (OrgRoles id') [] s1 = (r2, s2)"
      by (cases "addLoop svc userID h (OrgRoles id') [] s1")
    with addLoop_no_panic [of svc userID h "OrgRoles id'" "[]" s1] have r2: "r2 \<noteq> Panic" by simp
    show ?thesis
    proof (cases r2)
      case (Return orgIDs)
      obtain r3 s3 where c: "removeLoop svc userID d s2 = (r3, s3)"
        by (cases "removeLoop svc userID d s2")
      with removeLoop_no_panic [of svc userID d s2] have "r3 \<noteq> Panic" by simp
      with Pair \<open>r1 = Return hd\<close> hd a Return c show ?thesis
        by (cases r3) (simp_all add: syncMemberships_def)
    next
      case (Fail e)
      with Pair \<open>r1 = Return hd\<close> hd a show ?thesis by (simp add: syncMemberships_def)
    next
      case Panic
      with r2 show ?thesis by simp
    qed
  next
    case (Fail e)
    with Pair show ?thesis by (simp add: syncMemberships_def)
  next
    case Panic
    with Pair show ?thesis by (simp add: syncMemberships_def)
  qed
qed

lemma hook_Panic_iff:
  "fst (SyncOrgRolesHook svc id' s) = Panic \<longleftrightarrow>
   (SyncOrgRoles (ClientParams id') \<and> IsNamespace (ID id') NamespaceUser \<and> OrgRoles id' \<noteq> []
    \<and> (\<exists>userID. ParseInt (ID id') = Some userID \<and> snd (GetUserOrgList svc userID s) = None
         \<and> fst (updateLoop svc id' userID (fst (GetUserOrgList svc userID s)) {} [] s) = Panic))"
proof -
  have u: "fst (case syncMemberships svc id' userID result s of
                 (Panic, s') \<Rightarrow> (Panic, id', s')
               | (Fail err, s') \<Rightarrow> (Fail err, id', s')
               | (Return orgIDs, s') \<Rightarrow> updateDefaultOrg svc id' userID orgIDs s') = Panic
        \<longleftrightarrow> fst (syncMemberships svc id' userID result s) = Panic" for userID result
  proof (cases "syncMemberships svc id' userID result s")
    case (Pair r s')
    then show ?thesis
      using updateDefaultOrg_no_panic [of svc id' userID _ s']
      by (cases r) simp_all
  qed
  show ?thesis
    unfolding SyncOrgRolesHook_def
    by (auto simp: u syncMemberships_Panic split: option.splits prod.splits)
qed

lemma guards_user_identity:
  "SyncOrgRoles (ClientParams (user_identity ''7'' i n roles))"
  "IsNamespace (ID (user_identity ''7'' i n roles)) NamespaceUser"
  "ParseInt (ID (user_identity ''7'' i n roles)) = Some 7"
  "OrgRoles (user_identity ''7'' i n roles) = roles"
  "OrgName (user_identity ''7'' i n roles) = n"
  by (simp_all add: user_identity_def Identity_zero_def ClientParams_zero_def IsNamespace_def
      ParseInt_def strconv_ParseInt_def digit_def)

text \<open>Each loop over a list in two parts is the loop over the first part, then over the second.\<close>

lemma updateLoop_append:
  "updateLoop svc id' u (pre @ xs) h d s =
     (case updateLoop svc id' u pre h d s of
        (Return (h', d'), s') \<Rightarrow> updateLoop svc id' u xs h' d' s'
      | (Fail e, s') \<Rightarrow> (Fail e, s')
      | (Panic, s') \<Rightarrow> (Panic, s'))"
proof (induction pre arbitrary: h d s)
  case Nil
  then show ?case by simp
next
  case (Cons m pre)
  show ?case
    by (simp add: Cons.IH Let_def split: option.splits prod.splits)
qed

lemma addLoop_append:
  "addLoop svc u h (pre @ xs) ids s =
     (case addLoop svc u h pre ids s of
        (Return ids', s') \<Rightarrow> addLoop svc u h xs ids' s'
      | (Fail e, s') \<Rightarrow> (Fail e, s')
      | (Panic, s') \<Rightarrow> (Panic, s'))"
proof (induction pre arbitrary: ids s)
  case Nil
  then show ?case by simp
next
  case (Cons x pre)
  obtain n r where x: "x = (n, r)" by (cases x)
  show ?case
    by (simp add: x Cons.IH Let_def split: option.splits prod.splits)
qed

lemma removeLoop_append:
  "removeLoop svc u (pre @ xs) s =
     (case removeLoop svc u pre s of
        (Return v, s') \<Rightarrow> removeLoop svc u xs s'
      | (Fail e, s') \<Rightarrow> (Fail e, s')
      | (Panic, s') \<Rightarrow> (Panic, s'))"
proof (induction pre arbitrary: s)
  case Nil
  then show ?case by simp
next
  case (Cons o' pre)
  show ?case
    by (simp add: Cons.IH split: option.splits prod.splits)
qed

lemma hook_run:
  "SyncOrgRoles (ClientParams id') \<Longrightarrow> IsNamespace (ID id') NamespaceUser \<Longrightarrow>
   ParseInt (ID id') = Some u \<Longrightarrow> OrgRoles id' \<noteq> [] \<Longrightarrow>
   GetUserOrgList svc u s = (result, None) \<Longrightarrow>
   SyncOrgRolesHook svc id' s =
     (case syncMemberships svc id' u result s of
        (Panic, s') \<Rightarrow> (Panic, id', s')
      | (Fail err, s') \<Rightarrow> (Fail err, id', s')
      | (Return orgIDs, s') \<Rightarrow> updateDefaultOrg svc id' u orgIDs s')"
  by (simp add: SyncOrgRolesHook_def)

lemma updateLoop_Panic_iff:
  "fst (updateLoop svc id' u result h d s) = Panic \<longleftrightarrow>
   (\<exists>pre orga rest h' d' s'. result = pre @ orga # rest
      \<and> updateLoop svc id' u pre h d s = (Return (h', d'), s')
      \<and> fst (GetByID svc (DTO_OrgID orga) s') = None)"
proof
  assume "\<exists>pre orga rest h' d' s'. result = pre @ orga # rest
      \<and> updateLoop svc id' u pre h d s = (Return (h', d'), s')
      \<and> fst (GetByID svc (DTO_OrgID orga) s') = None"
  then show "fst (updateLoop svc id' u result h d s) = Panic"
    by (auto simp: updateLoop_append)
next
  assume "fst (updateLoop svc id' u result h d s) = Panic"
  then show "\<exists>pre orga rest h' d' s'. result = pre @ orga # rest
      \<and> updateLoop svc id' u pre h d s = (Return (h', d'), s')
      \<and> fst (GetByID svc (DTO_OrgID orga) s') = None"
  proof (induction result arbitrary: h d s)
    case Nil
    then show ?case by simp
  next
    case (Cons m rest)
    show ?case
    proof (cases "fst (GetByID svc (DTO_OrgID m) s)")
      case None
      then have "m # rest = [] @ m # rest
          \<and> updateLoop svc id' u [] h d s = (Return (h, d), s)
          \<and> fst (GetByID svc (DTO_OrgID m) s) = None" by simp
      then show ?thesis by blast
    next
      case (Some orgb)
      obtain r1 s1 where one: "updateLoop svc id' u [m] h d s = (r1, s1)"
        by (cases "updateLoop svc id' u [m] h d s")
      have whole: "updateLoop svc id' u (m # rest) h d s =
          (case (r1, s1) of
             (Return (h', d'), s') \<Rightarrow> updateLoop svc id' u rest h' d' s'
           | (Fail e, s') \<Rightarrow> (Fail e, s')
           | (Panic, s') \<Rightarrow> (Panic, s'))"
        using updateLoop_append [of svc id' u "[m]" rest h d s] one by simp
      from one Some have np: "r1 \<noteq> Panic"
        by (auto simp: Let_def split: if_splits prod.splits option.splits)
      show ?thesis
      proof (cases r1)
        case (Return hd1)
        obtain h1 d1 where hd1: "hd1 = (h1, d1)" by (cases hd1)
        from Cons.prems whole Return hd1
        have "fst (updateLoop svc id' u rest h1 d1 s1) = Panic" by simp
        from Cons.IH [OF this] obtain pre orga rest' h' d' s' where
          r: "rest = pre @ orga # rest'"
          and p: "updateLoop svc id' u pre h1 d1 s1 = (Return (h', d'), s')"
          and n: "fst (GetByID svc (DTO_OrgID orga) s') = None" by blast
        have "updateLoop svc id' u (m # pre) h d s = (Return (h', d'), s')"
          using updateLoop_append [of svc id' u "[m]" pre h d s] one Return hd1 p by simp
        with r n have "m # rest = (m # pre) @ orga # rest'
          \<and> updateLoop svc id' u (m # pre) h d s = (Return (h', d'), s')
          \<and> fst (GetByID svc (DTO_OrgID orga) s') = None" by simp
        then show ?thesis by blast
      next
        case (Fail e)
        with Cons.prems whole show ?thesis by simp
      next
        case Panic
        with np show ?thesis by simp
      qed
    qed
  qed
qed

lemma updateLoop_nil_somewhere:
  assumes nofail: "\<forall>orgID userID role t. fst (UpdateOrgUser svc orgID userID role t) = None"
    and m: "m \<in> set result" and nil: "\<forall>t. fst (GetByID svc (DTO_OrgID m) t) = None"
  shows "fst (updateLoop svc id' u result h d s) = Panic"
  using m
proof (induction result arbitrary: h d s)
  case Nil
  then show ?case by simp
next
  case (Cons x rest)
  show ?case
  proof (cases "fst (GetByID svc (DTO_OrgID x) s)")
    case None
    then show ?thesis by simp
  next
    case (Some orgb)
    with nil have "x \<noteq> m" by auto
    with Cons.prems have "m \<in> set rest" by simp
    note IH = Cons.IH [OF this]
    let ?ext = "index_map (OrgRoles id') (Org_Name orgb)"
    obtain e s' where upd: "UpdateOrgUser svc (DTO_OrgID x) u ?ext s = (e, s')"
      by (cases "UpdateOrgUser svc (DTO_OrgID x) u ?ext s")
    with nofail have "e = None" by (metis fst_conv)
    with upd Some IH show ?thesis
      by (simp add: Let_def)
  qed
qed

lemma hook_panics_at:
  assumes "SyncOrgRoles (ClientParams id')" and "IsNamespace (ID id') NamespaceUser"
    and "ParseInt (ID id') = Some u" and "OrgRoles id' \<noteq> []"
    and l: "GetUserOrgList svc u s = (pre @ orga # rest, None)"
    and p: "updateLoop svc id' u pre {} [] s = (Return (h, d), s1)"
    and n: "fst (GetByID svc (DTO_OrgID orga) s1) = None"
  shows "SyncOrgRolesHook svc id' s = (Panic, id', s1)"
proof -
  from p n have "updateLoop svc id' u (pre @ orga # rest) {} [] s = (Panic, s1)"
    by (simp add: updateLoop_append)
  then have "syncMemberships svc id' u (pre @ orga # rest) s = (Panic, s1)"
    by (simp add: syncMemberships_def)
  with hook_run [OF assms(1-4) l] show ?thesis by simp
qed

text \<open>
  Claim C9. The hook drops the error of the lookup by id and dereferences the
  organization; the nil dereference is the outcome \<open>Panic\<close>. When the lookup returns
  an organization for every current membership (in every state), the hook does not
  panic. For an identity that passes the guards and each current membership, wherever
  it is in the fetched list: when the first loop has gone through the memberships
  before it and the lookup for it returns nil, whatever error comes with it, the hook
  panics there, in the state that the earlier memberships have left. The hook panics
  in no other case. When no update of a membership fails and the lookup for some
  current membership returns nil in every state, the hook panics.
\<close>

theorem sync_lookup_nil_panics:
  "((\<forall>userID. ParseInt (ID id') = Some userID \<longrightarrow>
       (\<forall>orga\<in>set (fst (GetUserOrgList svc userID s)). \<forall>s'.
          fst (GetByID svc (DTO_OrgID orga) s') \<noteq> None))
     \<longrightarrow> fst (SyncOrgRolesHook svc id' s) \<noteq> Panic)
   \<and> (SyncOrgRoles (ClientParams id') \<and> IsNamespace (ID id') NamespaceUser
        \<and> ParseInt (ID id') = Some userID \<and> OrgRoles id' \<noteq> []
        \<and> GetUserOrgList svc userID s = (pre @ orga # rest, None)
        \<and> updateLoop svc id' userID pre {} [] s = (Return (h, d), s1)
        \<and> fst (GetByID svc (DTO_OrgID orga) s1) = None
      \<longrightarrow> SyncOrgRolesHook svc id' s = (Panic, id', s1))
   \<and> (fst (SyncOrgRolesHook svc id' s) = Panic \<longleftrightarrow>
        (SyncOrgRoles (ClientParams id') \<and> IsNamespace (ID id') NamespaceUser
         \<and> OrgRoles id' \<noteq> []
         \<and> (\<exists>u pre' orga' rest' h' d' s1'. ParseInt (ID id') = Some u
               \<and> GetUserOrgList svc u s = (pre' @ orga' # rest', None)
               \<and> updateLoop svc id' u pre' {} [] s = (Return (h', d'), s1')
               \<and> fst (GetByID svc (DTO_OrgID orga') s1') = None)))
   \<and> (SyncOrgRoles (ClientParams id') \<and> IsNamespace (ID id') NamespaceUser
        \<and> ParseInt (ID id') = Some userID \<and> OrgRoles id' \<noteq> []
        \<and> snd (GetUserOrgList svc userID s) = None
        \<and> (\<forall>orgID u role t. fst (UpdateOrgUser svc orgID u role t) = None)
        \<and> m \<in> set (fst (GetUserOrgList svc userID s))
        \<and> (\<forall>t. fst (GetByID svc (DTO_OrgID m) t) = None)
      \<longrightarrow> fst (SyncOrgRolesHook svc id' s) = Panic)"
proof (intro conjI)
  show "(\<forall>userID. ParseInt (ID id') = Some userID \<longrightarrow>
       (\<forall>orga\<in>set (fst (GetUserOrgList svc userID s)). \<forall>s'.
          fst (GetByID svc (DTO_OrgID orga) s') \<noteq> None))
     \<longrightarrow> fst (SyncOrgRolesHook svc id' s) \<noteq> Panic"
  proof (intro impI notI)
    assume h: "\<forall>userID. ParseInt (ID id') = Some userID \<longrightarrow>
       (\<forall>orga\<in>set (fst (GetUserOrgList svc userID s)). \<forall>s'.
          fst (GetByID svc (DTO_OrgID orga) s') \<noteq> None)"
    assume "fst (SyncOrgRolesHook svc id' s) = Panic"
    then obtain userID where u: "ParseInt (ID id') = Some userID"
      and p: "fst (updateLoop svc id' userID (fst (GetUserOrgList svc userID s)) {} [] s) = Panic"
      unfolding hook_Panic_iff by blast
    from h u have "\<forall>orga\<in>set (fst (GetUserOrgList svc userID s)). \<forall>s'.
          fst (GetByID svc (DTO_OrgID orga) s') \<noteq> None" by blast
    from updateLoop_no_panic [OF this] p show False by blast
  qed
  show "SyncOrgRoles (ClientParams id') \<and> IsNamespace (ID id') NamespaceUser
        \<and> ParseInt (ID id') = Some userID \<and> OrgRoles id' \<noteq> []
        \<and> GetUserOrgList svc userID s = (pre @ orga # rest, None)
        \<and> updateLoop svc id' userID pre {} [] s = (Return (h, d), s1)
        \<and> fst (GetByID svc (DTO_OrgID orga) s1) = None
      \<longrightarrow> SyncOrgRolesHook svc id' s = (Panic, id', s1)"
    using hook_panics_at [of id' userID svc s pre orga rest h d s1] by blast
  show "fst (SyncOrgRolesHook svc id' s) = Panic \<longleftrightarrow>
        (SyncOrgRoles (ClientParams id') \<and> IsNamespace (ID id') NamespaceUser
         \<and> OrgRoles id' \<noteq> []
         \<and> (\<exists>u pre' orga' rest' h' d' s1'. ParseInt (ID id') = Some u
               \<and> GetUserOrgList svc u s = (pre' @ orga' # rest', None)
               \<and> updateLoop svc id' u pre' {} [] s = (Return (h', d'), s1')
               \<and> fst (GetByID svc (DTO_OrgID orga') s1') = None))"
  proof
    assume "fst (SyncOrgRolesHook svc id' s) = Panic"
    then obtain u where g: "SyncOrgRoles (ClientParams id')" "IsNamespace (ID id') NamespaceUser"
        "OrgRoles id' \<noteq> []"
      and u: "ParseInt (ID id') = Some u" and e: "snd (GetUserOrgList svc u s) = None"
      and p: "fst (updateLoop svc id' u (fst (GetUserOrgList svc u s)) {} [] s) = Panic"
      unfolding hook_Panic_iff by blast
    from p obtain pre' orga' rest' h' d' s1' where
      r: "fst (GetUserOrgList svc u s) = pre' @ orga' # rest'"
      and q: "updateLoop svc id' u pre' {} [] s = (Return (h', d'), s1')"
        "fst (GetByID svc (DTO_OrgID orga') s1') = None"
      unfolding updateLoop_Panic_iff by blast
    from r e have "GetUserOrgList svc u s = (pre' @ orga' # rest', None)"
      by (simp add: prod_eq_iff)
    with g u q show "SyncOrgRoles (ClientParams id') \<and> IsNamespace (ID id') NamespaceUser
         \<and> OrgRoles id' \<noteq> []
         \<and> (\<exists>u pre' orga' rest' h' d' s1'. ParseInt (ID id') = Some u
               \<and> GetUserOrgList svc u s = (pre' @ orga' # rest', None)
               \<and> updateLoop svc id' u pre' {} [] s = (Return (h', d'), s1')
               \<and> fst (GetByID svc (DTO_OrgID orga') s1') = None)"
      by blast
  next
    assume "SyncOrgRoles (ClientParams id') \<and> IsNamespace (ID id') NamespaceUser
         \<and> OrgRoles id' \<noteq> []
         \<and> (\<exists>u pre' orga' rest' h' d' s1'. ParseInt (ID id') = Some u
               \<and> GetUserOrgList svc u s = (pre' @ orga' # rest', None)
               \<and> updateLoop svc id' u pre' {} [] s = (Return (h', d'), s1')
               \<and> fst (GetByID svc (DTO_OrgID orga') s1') = None)"
    then obtain u pre' orga' rest' h' d' s1' where
      "SyncOrgRoles (ClientParams id')" "IsNamespace (ID id') NamespaceUser"
      "ParseInt (ID id') = Some u" "OrgRoles id' \<noteq> []"
      "GetUserOrgList svc u s = (pre' @ orga' # rest', None)"
      "updateLoop svc id' u pre' {} [] s = (Return (h', d'), s1')"
      "fst (GetByID svc (DTO_OrgID orga') s1') = None" by blast
    from hook_panics_at [OF this] show "fst (SyncOrgRolesHook svc id' s) = Panic" by simp
  qed
  show "SyncOrgRoles (ClientParams id') \<and> IsNamespace (ID id') NamespaceUser
        \<and> ParseInt (ID id') = Some userID \<and> OrgRoles id' \<noteq> []
        \<and> snd (GetUserOrgList svc userID s) = None
        \<and> (\<forall>orgID u role t. fst (UpdateOrgUser svc orgID u role t) = None)
        \<and> m \<in> set (fst (GetUserOrgList svc userID s))
        \<and> (\<forall>t. fst (GetByID svc (DTO_OrgID m) t) = None)
      \<longrightarrow> fst (SyncOrgRolesHook svc id' s) = Panic"
  proof
    assume a: "SyncOrgRoles (ClientParams id') \<and> IsNamespace (ID id') NamespaceUser
        \<and> ParseInt (ID id') = Some userID \<and> OrgRoles id' \<noteq> []
        \<and> snd (GetUserOrgList svc userID s) = None
        \<and> (\<forall>orgID u role t. fst (UpdateOrgUser svc orgID u role t) = None)
        \<and> m \<in> set (fst (GetUserOrgList svc userID s))
        \<and> (\<forall>t. fst (GetByID svc (DTO_OrgID m) t) = None)"
    then have "fst (updateLoop svc id' userID (fst (GetUserOrgList svc userID s)) {} [] s) = Panic"
      by (intro updateLoop_nil_somewhere) blast+
    with a show "fst (SyncOrgRolesHook svc id' s) = Panic"
      unfolding hook_Panic_iff by blast
  qed
qed

theorem sync_lookup_nil_panics_witness:
  "SyncOrgRolesHook (recording_services (no_faults \<lparr> lookup_nil := True \<rparr>) admin_of_B)
       (user_identity ''7'' 1 ''B'' [(''A'', ''Editor'')]) []
     = (Panic, user_identity ''7'' 1 ''B'' [(''A'', ''Editor'')], [])
   \<and> fst (SyncOrgRolesHook (recording_services no_faults admin_of_B)
       (user_identity ''7'' 1 ''B'' [(''A'', ''Editor'')]) []) \<noteq> Panic
   \<and> SyncOrgRolesHook store_services (user_identity ''7'' 2 ''A'' [(''A'', ''Editor'')])
       store_dangling
     = (Panic, user_identity ''7'' 2 ''A'' [(''A'', ''Editor'')],
        store_dangling \<lparr> org_users := [(2, 7, ''Editor''), (5, 7, ''Admin'')] \<rparr>)
   \<and> fst (SyncOrgRolesHook
         (recording_services (no_faults \<lparr> lookup_nil := True \<rparr>) admin_of_B_viewer_of_A)
         (user_identity ''7'' 1 ''B'' [(''A'', ''Editor'')]) []) = Panic"
proof -
  let ?id = "user_identity ''7'' 1 ''B'' [(''A'', ''Editor'')]"
  let ?idA = "user_identity ''7'' 2 ''A'' [(''A'', ''Editor'')]"
  let ?idV = "user_identity ''7'' 2 ''A'' [(''A'', ''Viewer'')]"
  let ?bad = "recording_services (no_faults \<lparr> lookup_nil := True \<rparr>) admin_of_B"
  let ?good = "recording_services no_faults admin_of_B"
  let ?mB = "\<lparr> DTO_OrgID = 1, DTO_Name = ''B'', DTO_Role = ''Admin'' \<rparr>"
  let ?mA = "\<lparr> DTO_OrgID = 2, DTO_Name = ''A'', DTO_Role = ''Viewer'' \<rparr>"
  let ?m5 = "\<lparr> DTO_OrgID = 5, DTO_Name = [], DTO_Role = ''Admin'' \<rparr>"
  let ?s1 = "store_dangling \<lparr> org_users := [(2, 7, ''Editor''), (5, 7, ''Admin'')] \<rparr>"
  note g = guards_user_identity(1,2,3) [of 1 "''B''" "[(''A'', ''Editor'')]"]
  note gA = guards_user_identity(1,2,3) [of 2 "''A''" "[(''A'', ''Editor'')]"]
  note gV = guards_user_identity(1,2,3) [of 2 "''A''" "[(''A'', ''Viewer'')]"]
  have ne: "OrgRoles ?id \<noteq> []" "OrgRoles ?idA \<noteq> []" "OrgRoles ?idV \<noteq> []"
    by (simp_all add: guards_user_identity)
  have b: "GetUserOrgList ?bad 7 [] = ([] @ ?mB # [], None)
      \<and> updateLoop ?bad ?id 7 [] {} [] [] = (Return ({}, []), [])
      \<and> fst (GetByID ?bad (DTO_OrgID ?mB) []) = None"
    by (simp add: recording_services_def no_faults_def admin_of_B_def)
  note 1 = sync_lookup_nil_panics [where svc = ?bad and s = "[]" and id' = ?id,
      THEN conjunct2, THEN conjunct1, THEN mp, OF conjI [OF g(1) conjI [OF g(2) conjI [OF g(3)
        conjI [OF ne(1) b]]]]]
  have gd: "\<forall>userID. ParseInt (ID ?id) = Some userID \<longrightarrow>
       (\<forall>orga\<in>set (fst (GetUserOrgList ?good userID [])). \<forall>s'.
          fst (GetByID ?good (DTO_OrgID orga) s') \<noteq> None)"
    by (simp add: recording_services_def no_faults_def admin_of_B_def org_A_def org_B_def)
  note 2 = sync_lookup_nil_panics [where svc = ?good and s = "[]" and id' = ?id,
      THEN conjunct1, THEN mp, OF gd]
  have d: "GetUserOrgList store_services 7 store_dangling = ([?mA] @ ?m5 # [], None)
      \<and> updateLoop store_services ?idA 7 [?mA] {} [] store_dangling = (Return ({2}, []), ?s1)
      \<and> fst (GetByID store_services (DTO_OrgID ?m5) ?s1) = None"
    by (simp add: store_services_def store_GetUserOrgList_def user_memberships_def
        store_GetByID_def store_UpdateOrgUser_def store_dangling_def org_A_def org_B_def
        guards_user_identity index_map_def)
  note 3 = sync_lookup_nil_panics [where svc = store_services and s = store_dangling
      and id' = ?idA,
      THEN conjunct2, THEN conjunct1, THEN mp, OF conjI [OF gA(1) conjI [OF gA(2) conjI [OF gA(3)
        conjI [OF ne(2) d]]]]]
  let ?bad2 = "recording_services (no_faults \<lparr> lookup_nil := True \<rparr>) admin_of_B_viewer_of_A"
  have v: "snd (GetUserOrgList ?bad2 7 []) = None
      \<and> (\<forall>orgID u role t. fst (UpdateOrgUser ?bad2 orgID u role t) = None)
      \<and> ?mA \<in> set (fst (GetUserOrgList ?bad2 7 []))
      \<and> (\<forall>t. fst (GetByID ?bad2 (DTO_OrgID ?mA) t) = None)"
    by (simp add: recording_services_def no_faults_def admin_of_B_viewer_of_A_def)
  note 4 = sync_lookup_nil_panics [where svc = ?bad2 and s = "[]" and id' = ?id,
      THEN conjunct2, THEN conjunct2, THEN conjunct2, THEN mp,
      OF conjI [OF g(1) conjI [OF g(2) conjI [OF g(3) conjI [OF ne(1) v]]]]]
  from 1 2 3 4 show ?thesis by (intro conjI)
qed

text \<open>
  Claim C3, as stated, fails: not every failure to add a membership is returned. The
  user is Admin of \<open>B\<close> and the identity asserts Editor of \<open>A\<close> and Admin of \<open>B\<close>; the
  call that adds the membership of \<open>A\<close> fails with the organization-not-found error,
  and the hook returns no error.
\<close>

theorem sync_error_policy_counterexample:
  "AddOrgUser (recording_services (no_faults \<lparr> add_error := Some ErrOrgNotFound \<rparr>) admin_of_B)
       2 7 ''Editor'' []
     = (Some ErrOrgNotFound, [CallAddOrgUser 2 7 ''Editor''])
   \<and> SyncOrgRolesHook (recording_services (no_faults \<lparr> add_error := Some ErrOrgNotFound \<rparr>) admin_of_B)
       (user_identity ''7'' 1 ''B'' [(''A'', ''Editor''), (''B'', ''Admin'')]) []
     = (Return (), user_identity ''7'' 1 ''B'' [(''A'', ''Editor''), (''B'', ''Admin'')],
        [CallAddOrgUser 2 7 ''Editor''])"
  by (simp add: SyncOrgRolesHook_def guards_user_identity syncMemberships_def
      recording_services_def no_faults_def admin_of_B_def org_A_def org_B_def index_map_def
      updateDefaultOrg_def has_key_def)

lemma last_admin_remove_other:
  assumes "last_admin t o' u" and "\<not> last_admin t orgID u"
  shows "last_admin (t \<lparr> org_users :=
             filter (\<lambda>(x, v, r). \<not> (x = orgID \<and> v = u)) (org_users t) \<rparr>) o' u"
proof -
  from assms have ne: "o' \<noteq> orgID" by auto
  from assms(1) have mem: "(o', u, RoleAdmin) \<in> set (org_users t)"
    and none: "filter (\<lambda>(x, v, r). x = o' \<and> v \<noteq> u \<and> r = RoleAdmin) (org_users t) = []"
    by (simp_all add: last_admin_def)
  from none have "filter (\<lambda>(x, v, r). x = o' \<and> v \<noteq> u \<and> r = RoleAdmin)
      (filter (\<lambda>(x, v, r). \<not> (x = orgID \<and> v = u)) (org_users t)) = []"
    by (auto simp: filter_empty_conv)
  with mem ne show ?thesis by (simp add: last_admin_def)
qed

lemma removeLoop_store_retains:
  "\<exists>t'. removeLoop store_services u ds t = (Return (), t')
      \<and> (\<forall>o'. last_admin t o' u \<longrightarrow>
            (o', u, RoleAdmin) \<in> set (org_users t') \<and> last_admin t' o' u)"
proof (induction ds arbitrary: t)
  case Nil
  then show ?case by (simp add: last_admin_def)
next
  case (Cons orgID rest)
  show ?case
  proof (cases "last_admin t orgID u")
    case True
    with Cons.IH [of t] show ?thesis
      by (simp add: store_services_def store_RemoveOrgUser_def)
  next
    case False
    let ?t1 = "t \<lparr> org_users :=
        filter (\<lambda>(x, v, r). \<not> (x = orgID \<and> v = u)) (org_users t) \<rparr>"
    let ?t2 = "?t1 \<lparr> permissions := filter (\<lambda>p. p \<noteq> (orgID, u)) (permissions ?t1) \<rparr>"
    have keep: "last_admin ?t2 o' u" if "last_admin t o' u" for o'
      using last_admin_remove_other [OF that False] by (simp add: last_admin_def)
    from Cons.IH [of ?t2] obtain t' where
      r: "removeLoop store_services u rest ?t2 = (Return (), t')"
      and k: "\<forall>o'. last_admin ?t2 o' u \<longrightarrow>
            (o', u, RoleAdmin) \<in> set (org_users t') \<and> last_admin t' o' u" by blast
    from r False have "removeLoop store_services u (orgID # rest) t = (Return (), t')"
      by (simp add: store_services_def store_RemoveOrgUser_def store_DeleteUserPermissions_def)
    with k keep show ?thesis by blast
  qed
qed

lemma hook_update_failure:
  assumes "SyncOrgRoles (ClientParams id')" and "IsNamespace (ID id') NamespaceUser"
    and "ParseInt (ID id') = Some u" and "OrgRoles id' \<noteq> []"
    and l: "GetUserOrgList svc u s = (pre @ orga # rest, None)"
    and p: "updateLoop svc id' u pre {} [] s = (Return (h, d), s1)"
    and b: "fst (GetByID svc (DTO_OrgID orga) s1) = Some orgb"
    and e: "index_map (OrgRoles id') (Org_Name orgb) \<noteq> []"
      "index_map (OrgRoles id') (Org_Name orgb) \<noteq> DTO_Role orga"
    and f: "UpdateOrgUser svc (DTO_OrgID orga) u (index_map (OrgRoles id') (Org_Name orgb)) s1
          = (Some err, s2)"
  shows "SyncOrgRolesHook svc id' s = (Fail err, id', s2)"
proof -
  from p b e f have "updateLoop svc id' u (pre @ orga # rest) {} [] s = (Fail err, s2)"
    by (simp add: updateLoop_append Let_def)
  then have "syncMemberships svc id' u (pre @ orga # rest) s = (Fail err, s2)"
    by (simp add: syncMemberships_def)
  with hook_run [OF assms(1-4) l] show ?thesis by simp
qed

lemma addLoop_failure_at:
  assumes ap: "addLoop svc u h rpre [] s1 = (Return ids, s2)"
    and g: "GetByName svc n s2 = (Some org, None)" and nh: "Org_ID org \<notin> h"
    and f: "AddOrgUser svc (Org_ID org) u r s2 = (Some err, s3)"
  shows "addLoop svc u h (rpre @ (n, r) # rrest) [] s1 =
     (if errors_Is err ErrOrgNotFound then addLoop svc u h rrest (ids @ [Org_ID org]) s3
      else (Fail err, s3))"
  using assms by (simp add: addLoop_append Let_def)

lemma removeLoop_failure_at:
  assumes rp: "removeLoop svc u dpre s2 = (Return (), s3)"
    and f: "RemoveOrgUser svc orgID u s3 = (Some err, s4)"
  shows "removeLoop svc u (dpre @ orgID # drest) s2 =
     (if errors_Is err ErrLastOrgAdmin then removeLoop svc u drest s4 else (Fail err, s4))"
  using assms by (simp add: removeLoop_append)

lemma hook_add_failure:
  assumes "SyncOrgRoles (ClientParams id')" and "IsNamespace (ID id') NamespaceUser"
    and "ParseInt (ID id') = Some u" and "OrgRoles id' \<noteq> []"
    and l: "GetUserOrgList svc u s = (result, None)"
    and up: "updateLoop svc id' u result {} [] s = (Return (h, d), s1)"
    and roles: "OrgRoles id' = rpre @ (n, r) # rrest"
    and ap: "addLoop svc u h rpre [] s1 = (Return ids, s2)"
    and g: "GetByName svc n s2 = (Some org, None)" and nh: "Org_ID org \<notin> h"
    and f: "AddOrgUser svc (Org_ID org) u r s2 = (Some err, s3)"
    and ne: "\<not> errors_Is err ErrOrgNotFound"
  shows "SyncOrgRolesHook svc id' s = (Fail err, id', s3)"
proof -
  from addLoop_failure_at [OF ap g nh f, of rrest] ne roles
  have "addLoop svc u h (OrgRoles id') [] s1 = (Fail err, s3)" by simp
  with up have "syncMemberships svc id' u result s = (Fail err, s3)"
    by (simp add: syncMemberships_def)
  with hook_run [OF assms(1-4) l] show ?thesis by simp
qed

lemma hook_remove_failure:
  assumes "SyncOrgRoles (ClientParams id')" and "IsNamespace (ID id') NamespaceUser"
    and "ParseInt (ID id') = Some u" and "OrgRoles id' \<noteq> []"
    and l: "GetUserOrgList svc u s = (result, None)"
    and up: "updateLoop svc id' u result {} [] s = (Return (h, dpre @ orgID # drest), s1)"
    and ad: "addLoop svc u h (OrgRoles id') [] s1 = (Return ids, s2)"
    and rp: "removeLoop svc u dpre s2 = (Return (), s3)"
    and f: "RemoveOrgUser svc orgID u s3 = (Some err, s4)"
    and ne: "\<not> errors_Is err ErrLastOrgAdmin"
  shows "SyncOrgRolesHook svc id' s = (Fail err, id', s4)"
proof -
  from removeLoop_failure_at [OF rp f, of drest] ne
  have "removeLoop svc u (dpre @ orgID # drest) s2 = (Fail err, s4)" by simp
  with up ad have "syncMemberships svc id' u result s = (Fail err, s4)"
    by (simp add: syncMemberships_def)
  with hook_run [OF assms(1-4) l] show ?thesis by simp
qed

text \<open>
  Claim C3, amended. For an identity that passes the guards: when the fetch of the
  memberships fails, the hook returns no error and changes nothing. When the update of
  a current membership fails, at any position of the fetched list, the hook returns
  that error. When adding a membership fails, at any position among the asserted
  roles, the hook returns that error unless it is the organization-not-found error,
  which is absorbed, the loop going on with the next asserted role. When a removal
  fails, at any position among the memberships marked for removal, the hook returns
  that error unless it is the last-admin error, which is absorbed, the loop going on
  with the next removal. On the implementation of the services the third loop
  completes, and every membership whose removal is rejected for the last admin is
  retained: the user is still the only Admin of that organization afterwards.
\<close>

theorem sync_error_policy:
  assumes "SyncOrgRoles (ClientParams id')" and "IsNamespace (ID id') NamespaceUser"
    and "ParseInt (ID id') = Some userID" and "OrgRoles id' \<noteq> []"
  shows
    "(snd (GetUserOrgList svc userID s) \<noteq> None \<longrightarrow>
        SyncOrgRolesHook svc id' s = (Return (), id', s))
     \<and> (GetUserOrgList svc userID s = (pre @ orga # rest, None)
          \<and> updateLoop svc id' userID pre {} [] s = (Return (h0, d0), s0)
          \<and> fst (GetByID svc (DTO_OrgID orga) s0) = Some orgb
          \<and> index_map (OrgRoles id') (Org_Name orgb) \<noteq> []
          \<and> index_map (OrgRoles id') (Org_Name orgb) \<noteq> DTO_Role orga
          \<and> UpdateOrgUser svc (DTO_OrgID orga) userID (index_map (OrgRoles id') (Org_Name orgb)) s0
              = (Some err, s0') \<longrightarrow>
        SyncOrgRolesHook svc id' s = (Fail err, id', s0'))
     \<and> (GetUserOrgList svc userID s = (result, None)
          \<and> updateLoop svc id' userID result {} [] s = (Return (h, d), s1)
          \<and> OrgRoles id' = rpre @ (orgName, orgRole) # rrest
          \<and> addLoop svc userID h rpre [] s1 = (Return ids, s2)
          \<and> GetByName svc orgName s2 = (Some org, None) \<and> Org_ID org \<notin> h
          \<and> AddOrgUser svc (Org_ID org) userID orgRole s2 = (Some err, s3) \<longrightarrow>
        (if errors_Is err ErrOrgNotFound
         then addLoop svc userID h (OrgRoles id') [] s1
                = addLoop svc userID h rrest (ids @ [Org_ID org]) s3
         else SyncOrgRolesHook svc id' s = (Fail err, id', s3)))
     \<and> (GetUserOrgList svc userID s = (result, None)
          \<and> updateLoop svc id' userID result {} [] s = (Return (h, dpre @ orgID # drest), s1)
          \<and> addLoop svc userID h (OrgRoles id') [] s1 = (Return ids, s2)
          \<and> removeLoop svc userID dpre s2 = (Return (), s3)
          \<and> RemoveOrgUser svc orgID userID s3 = (Some err, s4) \<longrightarrow>
        (if errors_Is err ErrLastOrgAdmin
         then removeLoop svc userID (dpre @ orgID # drest) s2 = removeLoop svc userID drest s4
         else SyncOrgRolesHook svc id' s = (Fail err, id', s4)))
     \<and> (\<exists>t'. removeLoop store_services userID ds t = (Return (), t')
          \<and> (\<forall>o'. last_admin t o' userID \<longrightarrow>
                (o', userID, RoleAdmin) \<in> set (org_users t') \<and> last_admin t' o' userID))"
proof (intro conjI)
  show "snd (GetUserOrgList svc userID s) \<noteq> None \<longrightarrow>
        SyncOrgRolesHook svc id' s = (Return (), id', s)"
    using assms by (auto simp: SyncOrgRolesHook_def split: prod.splits)
  show "GetUserOrgList svc userID s = (pre @ orga # rest, None)
          \<and> updateLoop svc id' userID pre {} [] s = (Return (h0, d0), s0)
          \<and> fst (GetByID svc (DTO_OrgID orga) s0) = Some orgb
          \<and> index_map (OrgRoles id') (Org_Name orgb) \<noteq> []
          \<and> index_map (OrgRoles id') (Org_Name orgb) \<noteq> DTO_Role orga
          \<and> UpdateOrgUser svc (DTO_OrgID orga) userID (index_map (OrgRoles id') (Org_Name orgb)) s0
              = (Some err, s0') \<longrightarrow>
        SyncOrgRolesHook svc id' s = (Fail err, id', s0')"
    using hook_update_failure [OF assms, of svc s pre orga rest h0 d0 s0 orgb err s0'] by blast
  show "GetUserOrgList svc userID s = (result, None)
          \<and> updateLoop svc id' userID result {} [] s = (Return (h, d), s1)
          \<and> OrgRoles id' = rpre @ (orgName, orgRole) # rrest
          \<and> addLoop svc userID h rpre [] s1 = (Return ids, s2)
          \<and> GetByName svc orgName s2 = (Some org, None) \<and> Org_ID org \<notin> h
          \<and> AddOrgUser svc (Org_ID org) userID orgRole s2 = (Some err, s3) \<longrightarrow>
        (if errors_Is err ErrOrgNotFound
         then addLoop svc userID h (OrgRoles id') [] s1
                = addLoop svc userID h rrest (ids @ [Org_ID org]) s3
         else SyncOrgRolesHook svc id' s = (Fail err, id', s3))"
  proof
    assume a: "GetUserOrgList svc userID s = (result, None)
          \<and> updateLoop svc id' userID result {} [] s = (Return (h, d), s1)
          \<and> OrgRoles id' = rpre @ (orgName, orgRole) # rrest
          \<and> addLoop svc userID h rpre [] s1 = (Return ids, s2)
          \<and> GetByName svc orgName s2 = (Some org, None) \<and> Org_ID org \<notin> h
          \<and> AddOrgUser svc (Org_ID org) userID orgRole s2 = (Some err, s3)"
    show "if errors_Is err ErrOrgNotFound
         then addLoop svc userID h (OrgRoles id') [] s1
                = addLoop svc userID h rrest (ids @ [Org_ID org]) s3
         else SyncOrgRolesHook svc id' s = (Fail err, id', s3)"
    proof (cases "errors_Is err ErrOrgNotFound")
      case True
      with a addLoop_failure_at [of svc userID h rpre s1 ids s2 orgName org orgRole err s3 rrest]
      show ?thesis by simp
    next
      case False
      with a hook_add_failure [OF assms, of svc s result h d s1 rpre orgName orgRole rrest ids s2
          org err s3]
      show ?thesis by simp
    qed
  qed
  show "GetUserOrgList svc userID s = (result, None)
          \<and> updateLoop svc id' userID result {} [] s = (Return (h, dpre @ orgID # drest), s1)
          \<and> addLoop svc userID h (OrgRoles id') [] s1 = (Return ids, s2)
          \<and> removeLoop svc userID dpre s2 = (Return (), s3)
          \<and> RemoveOrgUser svc orgID userID s3 = (Some err, s4) \<longrightarrow>
        (if errors_Is err ErrLastOrgAdmin
         then removeLoop svc userID (dpre @ orgID # drest) s2 = removeLoop svc userID drest s4
         else SyncOrgRolesHook svc id' s = (Fail err, id', s4))"
  proof
    assume a: "GetUserOrgList svc userID s = (result, None)
          \<and> updateLoop svc id' userID result {} [] s = (Return (h, dpre @ orgID # drest), s1)
          \<and> addLoop svc userID h (OrgRoles id') [] s1 = (Return ids, s2)
          \<and> removeLoop svc userID dpre s2 = (Return (), s3)
          \<and> RemoveOrgUser svc orgID userID s3 = (Some err, s4)"
    show "if errors_Is err ErrLastOrgAdmin
         then removeLoop svc userID (dpre @ orgID # drest) s2 = removeLoop svc userID drest s4
         else SyncOrgRolesHook svc id' s = (Fail err, id', s4)"
    proof (cases "errors_Is err ErrLastOrgAdmin")
      case True
      with a removeLoop_failure_at [of svc userID dpre s2 s3 orgID err s4 drest]
      show ?thesis by simp
    next
      case False
      with a hook_remove_failure [OF assms, of svc s result h dpre orgID drest s1 ids s2 s3 err s4]
      show ?thesis by simp
    qed
  qed
  show "\<exists>t'. removeLoop store_services userID ds t = (Return (), t')
          \<and> (\<forall>o'. last_admin t o' userID \<longrightarrow>
                (o', userID, RoleAdmin) \<in> set (org_users t') \<and> last_admin t' o' userID)"
    by (rule removeLoop_store_retains)
qed

theorem sync_error_policy_witness:
  "SyncOrgRolesHook (recording_services (no_faults \<lparr> fetch_error := Some (ErrOther ''db'') \<rparr>) admin_of_B)
       (user_identity ''7'' 1 ''B'' [(''A'', ''Editor'')]) []
     = (Return (), user_identity ''7'' 1 ''B'' [(''A'', ''Editor'')], [])
   \<and> SyncOrgRolesHook
       (recording_services (no_faults \<lparr> update_error := Some (ErrOther ''db'') \<rparr>)
          admin_of_B_viewer_of_A)
       (user_identity ''7'' 1 ''B'' [(''B'', ''Admin''), (''A'', ''Editor'')]) []
     = (Fail (ErrOther ''db''), user_identity ''7'' 1 ''B'' [(''B'', ''Admin''), (''A'', ''Editor'')],
        [CallUpdateOrgUser 2 7 ''Editor''])
   \<and> SyncOrgRolesHook
       (recording_services (no_faults \<lparr> add_error := Some (ErrOther ''db'') \<rparr>) admin_of_B)
       (user_identity ''7'' 1 ''B'' [(''B'', ''Admin''), (''A'', ''Editor'')]) []
     = (Fail (ErrOther ''db''), user_identity ''7'' 1 ''B'' [(''B'', ''Admin''), (''A'', ''Editor'')],
        [CallAddOrgUser 2 7 ''Editor''])
   \<and> addLoop (recording_services (no_faults \<lparr> add_error := Some ErrOrgNotFound \<rparr>) admin_of_B)
       7 {1} [(''A'', ''Editor''), (''B'', ''Admin'')] [] []
     = (Return [2, 1], [CallAddOrgUser 2 7 ''Editor''])
   \<and> SyncOrgRolesHook
       (recording_services
          (no_faults \<lparr> remove_error :=
             (\<lambda>orgID. if orgID = 1 then Some ErrLastOrgAdmin else Some (ErrOther ''db'')) \<rparr>)
          admin_of_B_viewer_of_A)
       (user_identity ''7'' 1 ''B'' [(''C'', ''Editor'')]) []
     = (Fail (ErrOther ''db''), user_identity ''7'' 1 ''B'' [(''C'', ''Editor'')],
        [CallRemoveOrgUser 1 7, CallRemoveOrgUser 2 7])
   \<and> removeLoop
       (recording_services (no_faults \<lparr> remove_error := (\<lambda>orgID. Some ErrLastOrgAdmin) \<rparr>)
          admin_of_B_viewer_of_A)
       7 [1, 2] [] = (Return (), [CallRemoveOrgUser 1 7, CallRemoveOrgUser 2 7])
   \<and> (\<exists>t'. removeLoop store_services 7 [2, 1] store_last_admin = (Return (), t')
        \<and> (1, 7, ''Admin'') \<in> set (org_users t'))"
proof -
  let ?id = "user_identity ''7'' 1 ''B'' [(''A'', ''Editor'')]"
  let ?idBA = "user_identity ''7'' 1 ''B'' [(''B'', ''Admin''), (''A'', ''Editor'')]"
  let ?idC = "user_identity ''7'' 1 ''B'' [(''C'', ''Editor'')]"
  let ?fetch = "recording_services (no_faults \<lparr> fetch_error := Some (ErrOther ''db'') \<rparr>) admin_of_B"
  let ?upd = "recording_services (no_faults \<lparr> update_error := Some (ErrOther ''db'') \<rparr>)
      admin_of_B_viewer_of_A"
  let ?add = "recording_services (no_faults \<lparr> add_error := Some (ErrOther ''db'') \<rparr>) admin_of_B"
  let ?nf = "recording_services (no_faults \<lparr> add_error := Some ErrOrgNotFound \<rparr>) admin_of_B"
  let ?rem = "recording_services
      (no_faults \<lparr> remove_error :=
         (\<lambda>orgID. if orgID = 1 then Some ErrLastOrgAdmin else Some (ErrOther ''db'')) \<rparr>)
      admin_of_B_viewer_of_A"
  let ?last = "recording_services (no_faults \<lparr> remove_error := (\<lambda>orgID. Some ErrLastOrgAdmin) \<rparr>)
      admin_of_B_viewer_of_A"
  let ?mB = "\<lparr> DTO_OrgID = 1, DTO_Name = ''B'', DTO_Role = ''Admin'' \<rparr>"
  let ?mA = "\<lparr> DTO_OrgID = 2, DTO_Name = ''A'', DTO_Role = ''Viewer'' \<rparr>"
  note g = guards_user_identity(1,2,3) [of 1 "''B''" "[(''A'', ''Editor'')]"]
  note gBA = guards_user_identity(1,2,3) [of 1 "''B''" "[(''B'', ''Admin''), (''A'', ''Editor'')]"]
  note gC = guards_user_identity(1,2,3) [of 1 "''B''" "[(''C'', ''Editor'')]"]
  have ne: "OrgRoles ?id \<noteq> []" "OrgRoles ?idBA \<noteq> []" "OrgRoles ?idC \<noteq> []"
    by (simp_all add: guards_user_identity)
  note defs = recording_services_def no_faults_def admin_of_B_def admin_of_B_viewer_of_A_def
    org_A_def org_B_def guards_user_identity index_map_def
  have f: "snd (GetUserOrgList ?fetch 7 []) \<noteq> None"
    by (simp add: defs)
  note 1 = sync_error_policy [OF g ne(1), where svc = ?fetch and s = "[]",
      THEN conjunct1, THEN mp, OF f]
  have u: "GetUserOrgList ?upd 7 [] = ([?mB] @ ?mA # [], None)
      \<and> updateLoop ?upd ?idBA 7 [?mB] {} [] [] = (Return ({1}, []), [])
      \<and> fst (GetByID ?upd (DTO_OrgID ?mA) []) = Some org_A
      \<and> index_map (OrgRoles ?idBA) (Org_Name org_A) \<noteq> []
      \<and> index_map (OrgRoles ?idBA) (Org_Name org_A) \<noteq> DTO_Role ?mA
      \<and> UpdateOrgUser ?upd (DTO_OrgID ?mA) 7 (index_map (OrgRoles ?idBA) (Org_Name org_A)) []
          = (Some (ErrOther ''db''), [CallUpdateOrgUser 2 7 ''Editor''])"
    by (simp add: defs)
  note 2 = sync_error_policy [OF gBA ne(2), where svc = ?upd and s = "[]",
      THEN conjunct2, THEN conjunct1, THEN mp, OF u]
  have a: "GetUserOrgList ?add 7 [] = (admin_of_B, None)
      \<and> updateLoop ?add ?idBA 7 admin_of_B {} [] [] = (Return ({1}, []), [])
      \<and> OrgRoles ?idBA = [(''B'', ''Admin'')] @ (''A'', ''Editor'') # []
      \<and> addLoop ?add 7 {1} [(''B'', ''Admin'')] [] [] = (Return [1], [])
      \<and> GetByName ?add ''A'' [] = (Some org_A, None) \<and> Org_ID org_A \<notin> {1}
      \<and> AddOrgUser ?add (Org_ID org_A) 7 ''Editor'' []
          = (Some (ErrOther ''db''), [CallAddOrgUser 2 7 ''Editor''])"
    by (simp add: defs)
  from sync_error_policy [OF gBA ne(2), where svc = ?add and s = "[]",
      THEN conjunct2, THEN conjunct2, THEN conjunct1, THEN mp, OF a]
  have 3: "SyncOrgRolesHook ?add ?idBA [] = (Fail (ErrOther ''db''), ?idBA, [CallAddOrgUser 2 7 ''Editor''])"
    by simp
  let ?idAB = "user_identity ''7'' 1 ''B'' [(''A'', ''Editor''), (''B'', ''Admin'')]"
  note gAB = guards_user_identity(1,2,3) [of 1 "''B''" "[(''A'', ''Editor''), (''B'', ''Admin'')]"]
  have neAB: "OrgRoles ?idAB \<noteq> []" by (simp add: guards_user_identity)
  have n: "GetUserOrgList ?nf 7 [] = (admin_of_B, None)
      \<and> updateLoop ?nf ?idAB 7 admin_of_B {} [] [] = (Return ({1}, []), [])
      \<and> OrgRoles ?idAB = [] @ (''A'', ''Editor'') # [(''B'', ''Admin'')]
      \<and> addLoop ?nf 7 {1} [] [] [] = (Return [], [])
      \<and> GetByName ?nf ''A'' [] = (Some org_A, None) \<and> Org_ID org_A \<notin> {1}
      \<and> AddOrgUser ?nf (Org_ID org_A) 7 ''Editor'' []
          = (Some ErrOrgNotFound, [CallAddOrgUser 2 7 ''Editor''])"
    by (simp add: defs)
  from sync_error_policy [OF gAB neAB, where svc = ?nf and s = "[]",
      THEN conjunct2, THEN conjunct2, THEN conjunct1, THEN mp, OF n]
  have 4: "addLoop ?nf 7 {1} [(''A'', ''Editor''), (''B'', ''Admin'')] [] []
      = (Return [2, 1], [CallAddOrgUser 2 7 ''Editor''])"
    by (simp add: defs)
  have r: "GetUserOrgList ?rem 7 [] = (admin_of_B_viewer_of_A, None)
      \<and> updateLoop ?rem ?idC 7 admin_of_B_viewer_of_A {} [] [] = (Return ({1, 2}, [1] @ 2 # []), [])
      \<and> addLoop ?rem 7 {1, 2} (OrgRoles ?idC) [] [] = (Return [], [])
      \<and> removeLoop ?rem 7 [1] [] = (Return (), [CallRemoveOrgUser 1 7])
      \<and> RemoveOrgUser ?rem 2 7 [CallRemoveOrgUser 1 7]
          = (Some (ErrOther ''db''), [CallRemoveOrgUser 1 7, CallRemoveOrgUser 2 7])"
    by (simp add: defs insert_commute)
  from sync_error_policy [OF gC ne(3), where svc = ?rem and s = "[]",
      THEN conjunct2, THEN conjunct2, THEN conjunct2, THEN conjunct1, THEN mp, OF r]
  have 5: "SyncOrgRolesHook ?rem ?idC []
      = (Fail (ErrOther ''db''), ?idC, [CallRemoveOrgUser 1 7, CallRemoveOrgUser 2 7])"
    by simp
  have l: "GetUserOrgList ?last 7 [] = (admin_of_B_viewer_of_A, None)
      \<and> updateLoop ?last ?idC 7 admin_of_B_viewer_of_A {} [] [] = (Return ({1, 2}, [] @ 1 # [2]), [])
      \<and> addLoop ?last 7 {1, 2} (OrgRoles ?idC) [] [] = (Return [], [])
      \<and> removeLoop ?last 7 [] [] = (Return (), [])
      \<and> RemoveOrgUser ?last 1 7 [] = (Some ErrLastOrgAdmin, [CallRemoveOrgUser 1 7])"
    by (simp add: defs insert_commute)
  from sync_error_policy [OF gC ne(3), where svc = ?last and s = "[]",
      THEN conjunct2, THEN conjunct2, THEN conjunct2, THEN conjunct1, THEN mp, OF l]
  have 6: "removeLoop ?last 7 [1, 2] [] = (Return (), [CallRemoveOrgUser 1 7, CallRemoveOrgUser 2 7])"
    by (simp add: defs)
  have la: "last_admin store_last_admin 1 7"
    by (simp add: last_admin_def store_last_admin_def RoleAdmin_def)
  from sync_error_policy [OF g ne(1), where t = store_last_admin and ds = "[2, 1]",
      THEN conjunct2, THEN conjunct2, THEN conjunct2, THEN conjunct2] la
  have 7: "\<exists>t'. removeLoop store_services 7 [2, 1] store_last_admin = (Return (), t')
        \<and> (1, 7, ''Admin'') \<in> set (org_users t')"
    by (auto simp: RoleAdmin_def)
  from 1 2 3 4 5 6 7 show ?thesis by (intro conjI)
qed

section \<open>The role sync on the implementation of the services\<close>

lemma store_fields [simp]:
  "GetByName store_services = store_GetByName"
  "GetByID store_services = store_GetByID"
  "GetUserOrgList store_services = store_GetUserOrgList"
  "UpdateOrgUser store_services = store_UpdateOrgUser"
  "AddOrgUser store_services = store_AddOrgUser"
  "RemoveOrgUser store_services = store_RemoveOrgUser"
  "DeleteUserPermissions store_services = store_DeleteUserPermissions"
  "Update store_services = store_Update"
  "TagDevice store_services = store_TagDevice"
  by (simp_all add: store_services_def)

lemma default_org_run:
  "(case SyncOrgRolesHook store_services (user_identity ''7'' 1 ''B'' [(''A'', ''Editor'')])
           store_last_admin of
      (r, id', s') \<Rightarrow>
        r = Return () \<and> OrgID id' = 2 \<and> map_of (user_org s') 7 = Some 2
        \<and> user_memberships s' 7 = [(2, ''Editor''), (1, ''Admin'')]
        \<and> resulting_org_ids s' id' 7 = [2, 2, 1])"
  by (simp add: SyncOrgRolesHook_def guards_user_identity syncMemberships_def
      store_GetByName_def store_GetByID_def store_GetUserOrgList_def store_UpdateOrgUser_def
      store_RemoveOrgUser_def store_Update_def last_admin_def user_memberships_def
      store_last_admin_def org_A_def org_B_def index_map_def RoleAdmin_def
      updateDefaultOrg_def has_key_def resulting_org_ids_def resolved_org_ids_def
      List.map_filter_simps)

text \<open>
  Claim C2, as stated, fails. User 7 is a Viewer of \<open>A\<close> (id 2) and the last Admin of
  \<open>B\<close> (id 1), with \<open>B\<close> active; the identity asserts Editor of \<open>A\<close> only. The removal
  from \<open>B\<close> is rejected, so after the sync the user is a member of \<open>A\<close> and of \<open>B\<close>
  and the smallest id among the resulting organizations is 1; the hook makes 2 the
  active organization, in the identity and in the user directory.
\<close>

theorem default_org_counterexample:
  "(case SyncOrgRolesHook store_services (user_identity ''7'' 1 ''B'' [(''A'', ''Editor'')])
           store_last_admin of
      (r, id', s') \<Rightarrow>
        r = Return () \<and> OrgID id' = 2 \<and> map_of (user_org s') 7 = Some 2
        \<and> user_memberships s' 7 = [(2, ''Editor''), (1, ''Admin'')]
        \<and> Min (set (map fst (user_memberships s' 7))) = 1
        \<and> Min (set (resulting_org_ids s' id' 7)) = 1)
   \<and> \<not> has_key (OrgRoles (user_identity ''7'' 1 ''B'' [(''A'', ''Editor'')]))
          (OrgName (user_identity ''7'' 1 ''B'' [(''A'', ''Editor'')]))"
proof -
  have m: "Min (set [2, 2, 1 :: int]) = 1" "Min (set (map fst [(2 :: int, ''Editor''), (1, ''Admin'')])) = 1"
    by simp_all
  have k: "\<not> has_key (OrgRoles (user_identity ''7'' 1 ''B'' [(''A'', ''Editor'')]))
          (OrgName (user_identity ''7'' 1 ''B'' [(''A'', ''Editor'')]))"
    by (simp add: guards_user_identity has_key_def)
  from default_org_run m k show ?thesis
    by (cases "SyncOrgRolesHook store_services (user_identity ''7'' 1 ''B'' [(''A'', ''Editor'')])
           store_last_admin") auto
qed

lemma hd_sort_Min:
  fixes xs :: "int list"
  assumes ne: "xs \<noteq> []"
  shows "hd (sort xs) = Min (set xs)"
proof -
  from ne have "sort xs \<noteq> []" by (metis length_0_conv length_sort)
  then obtain y ys where ys: "sort xs = y # ys" by (cases "sort xs") auto
  have "sorted (sort xs)" by (rule sorted_sort)
  with ys have "sorted (y # ys)" by simp
  then have le: "\<forall>z\<in>set (y # ys). y \<le> z" by auto
  have "set (sort xs) = set xs" by simp
  with ys have "set (y # ys) = set xs" by simp
  with le have "\<forall>z\<in>set xs. y \<le> z" and "y \<in> set xs" by auto
  then have "Min (set xs) = y" by (intro Min_eqI) auto
  with ys show ?thesis by simp
qed

lemma store_lookup_orgs:
  "orgs t = orgs s \<Longrightarrow> store_GetByID i t = store_GetByID i s"
  "orgs t = orgs s \<Longrightarrow> store_GetByName n t = store_GetByName n s"
  by (simp_all add: store_GetByID_def store_GetByName_def)

lemma store_GetByName_cases:
  "store_GetByName n s = (None, Some ErrOrgNotFound)
   \<or> (\<exists>o'. store_GetByName n s = (Some o', None))"
  by (simp add: store_GetByName_def split: option.splits)

lemma resolved_org_ids_orgs:
  "orgs t = orgs s \<Longrightarrow> resolved_org_ids t roles = resolved_org_ids s roles"
  by (simp add: resolved_org_ids_def store_GetByName_def)

lemma resolved_org_ids_Cons:
  "resolved_org_ids s ((n, r) # roles) =
     (case fst (store_GetByName n s) of
        None \<Rightarrow> resolved_org_ids s roles
      | Some o' \<Rightarrow> Org_ID o' # resolved_org_ids s roles)"
  by (simp add: resolved_org_ids_def List.map_filter_simps split: option.splits)

lemma updateLoop_store:
  "\<forall>m\<in>set result. fst (store_GetByID (DTO_OrgID m) s) \<noteq> None \<Longrightarrow>
   \<exists>h d s1. updateLoop store_services id' u result h0 d0 s = (Return (h, d), s1)
      \<and> orgs s1 = orgs s \<and> user_org s1 = user_org s"
proof (induction result arbitrary: h0 d0 s)
  case Nil
  then show ?case by simp
next
  case (Cons m rest)
  from Cons.prems obtain orgb where b: "fst (store_GetByID (DTO_OrgID m) s) = Some orgb"
    by fastforce
  let ?ext = "index_map (OrgRoles id') (Org_Name orgb)"
  let ?s' = "s \<lparr> org_users :=
        map (\<lambda>(o', v, r). if o' = DTO_OrgID m \<and> v = u then (o', v, ?ext) else (o', v, r))
          (org_users s) \<rparr>"
  have o': "orgs ?s' = orgs s" "user_org ?s' = user_org s"
    by simp_all
  have r: "\<forall>m\<in>set rest. fst (store_GetByID (DTO_OrgID m) s) \<noteq> None"
    using Cons.prems by simp
  then have r': "\<forall>m\<in>set rest. fst (store_GetByID (DTO_OrgID m) ?s') \<noteq> None"
    by (simp add: store_lookup_orgs(1) [OF o'(1)])
  have upd: "store_UpdateOrgUser (DTO_OrgID m) u ?ext s = (None, ?s')"
    by (simp add: store_UpdateOrgUser_def)
  show ?case
  proof (cases "?ext = []")
    case True
    with b Cons.IH [OF r, of "insert (DTO_OrgID m) h0" "d0 @ [DTO_OrgID m]"]
    show ?thesis by (simp add: Let_def)
  next
    case False
    show ?thesis
    proof (cases "?ext = DTO_Role m")
      case True
      with False b Cons.IH [OF r, of "insert (DTO_OrgID m) h0" d0]
      show ?thesis by (simp add: Let_def)
    next
      case ne: False
      from Cons.IH [OF r', of "insert (DTO_OrgID m) h0" d0] o'
      obtain h d s1 where
        "updateLoop store_services id' u rest (insert (DTO_OrgID m) h0) d0 ?s' = (Return (h, d), s1)"
        "orgs s1 = orgs s" "user_org s1 = user_org s" by auto
      with False ne b upd show ?thesis by (simp add: Let_def)
    qed
  qed
qed

lemma addLoop_store:
  "\<exists>s2. addLoop store_services u h roles acc s = (Return (acc @ resolved_org_ids s roles), s2)
      \<and> orgs s2 = orgs s \<and> user_org s2 = user_org s"
proof (induction roles arbitrary: acc s)
  case Nil
  then show ?case by (simp add: resolved_org_ids_def List.map_filter_simps)
next
  case (Cons x roles)
  obtain n r where x: "x = (n, r)" by (cases x)
  from store_GetByName_cases [of n s] show ?case
  proof
    assume g: "store_GetByName n s = (None, Some ErrOrgNotFound)"
    with Cons.IH [of acc s] show ?thesis
      by (simp add: x resolved_org_ids_Cons)
  next
    assume "\<exists>o'. store_GetByName n s = (Some o', None)"
    then obtain o' where g: "store_GetByName n s = (Some o', None)" by blast
    let ?s' = "s \<lparr> org_users := org_users s @ [(Org_ID o', u, r)] \<rparr>"
    have o: "orgs ?s' = orgs s" "user_org ?s' = user_org s"
      by simp_all
    have add: "store_AddOrgUser (Org_ID o') u r s = (None, ?s')"
      by (simp add: store_AddOrgUser_def)
    show ?thesis
    proof (cases "Org_ID o' \<in> h")
      case True
      with g Cons.IH [of "acc @ [Org_ID o']" s] show ?thesis
        by (simp add: x resolved_org_ids_Cons)
    next
      case False
      from Cons.IH [of "acc @ [Org_ID o']" ?s'] o
      obtain s2 where "addLoop store_services u h roles (acc @ [Org_ID o']) ?s'
          = (Return ((acc @ [Org_ID o']) @ resolved_org_ids ?s' roles), s2)"
        "orgs s2 = orgs s" "user_org s2 = user_org s" by auto
      with False g add resolved_org_ids_orgs [OF o(1), of roles] show ?thesis
        by (simp add: x resolved_org_ids_Cons)
    qed
  qed
qed

lemma removeLoop_store:
  "\<exists>s3. removeLoop store_services u d s = (Return (), s3)
      \<and> orgs s3 = orgs s \<and> user_org s3 = user_org s"
proof (induction d arbitrary: s)
  case Nil
  then show ?case by simp
next
  case (Cons orgID rest)
  show ?case
  proof (cases "last_admin s orgID u")
    case True
    with Cons.IH [of s] show ?thesis by (simp add: store_RemoveOrgUser_def)
  next
    case False
    let ?s1 = "s \<lparr> org_users :=
        filter (\<lambda>(o', v, r). \<not> (o' = orgID \<and> v = u)) (org_users s) \<rparr>"
    let ?s' = "?s1 \<lparr> permissions := filter (\<lambda>p. p \<noteq> (orgID, u)) (permissions ?s1) \<rparr>"
    have o: "orgs ?s' = orgs s" "user_org ?s' = user_org s"
      by simp_all
    from Cons.IH [of ?s'] o obtain s3 where
      "removeLoop store_services u rest ?s' = (Return (), s3)"
      "orgs s3 = orgs s" "user_org s3 = user_org s" by auto
    with False show ?thesis
      by (simp add: store_RemoveOrgUser_def store_DeleteUserPermissions_def)
  qed
qed

lemma syncMemberships_store:
  assumes "\<forall>m\<in>set result. fst (store_GetByID (DTO_OrgID m) s) \<noteq> None"
  shows "\<exists>s'. syncMemberships store_services id' u result s
            = (Return (resolved_org_ids s (OrgRoles id')), s')
          \<and> orgs s' = orgs s \<and> user_org s' = user_org s"
proof -
  from updateLoop_store [OF assms, of id' u "{}" "[]"] obtain h d s1 where
    1: "updateLoop store_services id' u result {} [] s = (Return (h, d), s1)"
      "orgs s1 = orgs s" "user_org s1 = user_org s" by blast
  from addLoop_store [of u h "OrgRoles id'" "[]" s1] obtain s2 where
    2: "addLoop store_services u h (OrgRoles id') [] s1
          = (Return (resolved_org_ids s1 (OrgRoles id')), s2)"
      "orgs s2 = orgs s1" "user_org s2 = user_org s1" by auto
  from removeLoop_store [of u d s2] obtain s3 where
    3: "removeLoop store_services u d s2 = (Return (), s3)"
      "orgs s3 = orgs s2" "user_org s3 = user_org s2" by blast
  from 1 2 3 resolved_org_ids_orgs [OF 1(2), of "OrgRoles id'"] show ?thesis
    by (simp add: syncMemberships_def)
qed

lemma store_memberships_known:
  "directory_ok s \<Longrightarrow>
   \<forall>m\<in>set (fst (store_GetUserOrgList u s)). fst (store_GetByID (DTO_OrgID m) s) \<noteq> None"
proof
  fix m
  assume ok: "directory_ok s" and m: "m \<in> set (fst (store_GetUserOrgList u s))"
  then obtain r where "(DTO_OrgID m, u, r) \<in> set (org_users s)"
    by (auto simp: store_GetUserOrgList_def user_memberships_def)
  with ok have "DTO_OrgID m \<in> set (map Org_ID (orgs s))"
    by (auto simp: directory_ok_def list_all_iff)
  then have "find (\<lambda>o'. Org_ID o' = DTO_OrgID m) (orgs s) \<noteq> None"
    by (auto simp: find_None_iff)
  then show "fst (store_GetByID (DTO_OrgID m) s) \<noteq> None"
    by (auto simp: store_GetByID_def split: option.splits)
qed

lemma directory_ok_examples: "directory_ok store_last_admin" "directory_ok store_two_admins"
  by (simp_all add: directory_ok_def store_last_admin_def store_two_admins_def org_A_def org_B_def)

text \<open>
  With a directory that membership updates do not change, the second loop collects the
  ids that the asserted names resolve to before the sync.
\<close>

lemma updateLoop_directory:
  "directory_stable svc \<Longrightarrow> updateLoop svc id' u result h d s = (r, s1) \<Longrightarrow>
   GetByName svc name s1 = GetByName svc name s"
proof (induction result arbitrary: h d s)
  case Nil
  then show ?case by simp
next
  case (Cons m rest)
  show ?case
  proof (cases "fst (GetByID svc (DTO_OrgID m) s)")
    case None
    with Cons.prems(2) show ?thesis by simp
  next
    case (Some orgb)
    let ?ext = "index_map (OrgRoles id') (Org_Name orgb)"
    show ?thesis
    proof (cases "?ext = [] \<or> ?ext = DTO_Role m")
      case True
      with Some Cons.prems(2) Cons.IH [OF Cons.prems(1)] show ?thesis
        by (auto simp: Let_def split: if_splits)
    next
      case False
      obtain e s' where up: "UpdateOrgUser svc (DTO_OrgID m) u ?ext s = (e, s')"
        by (cases "UpdateOrgUser svc (DTO_OrgID m) u ?ext s")
      from Cons.prems(1) have st: "GetByName svc name s' = GetByName svc name s"
        using up unfolding directory_stable_def by (metis snd_conv)
      show ?thesis
      proof (cases e)
        case None
        with False Some up Cons.prems(2)
        have "updateLoop svc id' u rest (insert (DTO_OrgID m) h) d s' = (r, s1)"
          by (simp add: Let_def)
        from Cons.IH [OF Cons.prems(1) this] st show ?thesis by simp
      next
        case (Some err)
        with False \<open>fst (GetByID svc (DTO_OrgID m) s) = Some orgb\<close> up Cons.prems(2) st
        show ?thesis by (simp add: Let_def)
      qed
    qed
  qed
qed

lemma resolved_ids_Nil: "resolved_ids svc s [] = []"
  by (simp add: resolved_ids_def List.map_filter_simps)

lemma resolved_ids_Cons:
  "resolved_ids svc s ((n, r) # roles) =
     (case GetByName svc n s of
        (Some o', None) \<Rightarrow> Org_ID o' # resolved_ids svc s roles
      | (Some o', Some e) \<Rightarrow> resolved_ids svc s roles
      | (None, e) \<Rightarrow> resolved_ids svc s roles)"
  by (simp add: resolved_ids_def List.map_filter_simps split: option.splits prod.splits)

lemma resolved_ids_cong:
  "(\<And>name. GetByName svc name t = GetByName svc name s) \<Longrightarrow>
   resolved_ids svc t roles = resolved_ids svc s roles"
  by (simp add: resolved_ids_def)

lemma addLoop_resolved:
  "directory_stable svc \<Longrightarrow> addLoop svc u h roles acc s = (Return ids, s2) \<Longrightarrow>
   ids = acc @ resolved_ids svc s roles"
proof (induction roles arbitrary: acc s)
  case Nil
  then show ?case by (simp add: resolved_ids_Nil)
next
  case (Cons x roles)
  obtain n r where x: "x = (n, r)" by (cases x)
  obtain orga e where g: "GetByName svc n s = (orga, e)" by (cases "GetByName svc n s")
  show ?case
  proof (cases "\<exists>o'. orga = Some o' \<and> e = None")
    case False
    with g have "addLoop svc u h (x # roles) acc s = addLoop svc u h roles acc s"
      and "resolved_ids svc s (x # roles) = resolved_ids svc s roles"
      by (auto simp: x resolved_ids_Cons split: option.splits)
    with Cons.IH [OF Cons.prems(1), of acc s] Cons.prems(2) show ?thesis by simp
  next
    case True
    then obtain o' where o: "orga = Some o'" "e = None" by blast
    with g have rs: "resolved_ids svc s (x # roles) = Org_ID o' # resolved_ids svc s roles"
      by (simp add: x resolved_ids_Cons)
    show ?thesis
    proof (cases "Org_ID o' \<in> h")
      case True
      with g o Cons.prems(2)
      have "addLoop svc u h roles (acc @ [Org_ID o']) s = (Return ids, s2)"
        by (simp add: x)
      from Cons.IH [OF Cons.prems(1) this] rs show ?thesis by simp
    next
      case False
      obtain ae s' where ad: "AddOrgUser svc (Org_ID o') u r s = (ae, s')"
        by (cases "AddOrgUser svc (Org_ID o') u r s")
      from Cons.prems(1) have "\<And>name. GetByName svc name s' = GetByName svc name s"
        using ad unfolding directory_stable_def by (metis snd_conv)
      then have rc: "resolved_ids svc s' roles = resolved_ids svc s roles"
        by (rule resolved_ids_cong)
      from False g o ad Cons.prems(2)
      have "addLoop svc u h roles (acc @ [Org_ID o']) s' = (Return ids, s2)"
        by (auto simp: x Let_def split: option.splits if_splits)
      from Cons.IH [OF Cons.prems(1) this] rs rc show ?thesis by simp
    qed
  qed
qed

lemma syncMemberships_resolved:
  assumes st: "directory_stable svc"
    and sm: "syncMemberships svc id' u result s = (Return orgIDs, s1)"
  shows "orgIDs = resolved_ids svc s (OrgRoles id')"
proof -
  from sm obtain h d t1 where 1: "updateLoop svc id' u result {} [] s = (Return (h, d), t1)"
    by (auto simp: syncMemberships_def split: prod.splits outcome.splits)
  with sm obtain t2 where 2: "addLoop svc u h (OrgRoles id') [] t1 = (Return orgIDs, t2)"
    by (auto simp: syncMemberships_def split: prod.splits outcome.splits)
  from updateLoop_directory [OF st 1]
  have "resolved_ids svc t1 (OrgRoles id') = resolved_ids svc s (OrgRoles id')"
    by (intro resolved_ids_cong)
  with addLoop_resolved [OF st 2] show ?thesis by simp
qed

lemma updateDefaultOrg_Min:
  assumes "\<not> has_key (OrgRoles id') (OrgName id')"
  shows "updateDefaultOrg svc id' u orgIDs s1 =
     (if orgIDs = [] then (Return (), id', s1)
      else (case Update svc u (Min (set orgIDs)) s1 of
              (None, s2) \<Rightarrow> (Return (), id' \<lparr> OrgID := Min (set orgIDs) \<rparr>, s2)
            | (Some err, s2) \<Rightarrow> (Fail err, id' \<lparr> OrgID := Min (set orgIDs) \<rparr>, s2)))"
proof (cases "orgIDs = []")
  case True
  with assms show ?thesis by (simp add: updateDefaultOrg_def)
next
  case False
  then have "sort orgIDs \<noteq> []" by (metis length_0_conv length_sort)
  then obtain first others where so: "sort orgIDs = first # others"
    by (cases "sort orgIDs") auto
  with hd_sort_Min [OF False] have f: "first = Min (set orgIDs)" by simp
  from assms so False show ?thesis unfolding f [symmetric]
    by (simp add: updateDefaultOrg_def)
qed

lemma store_directory_stable: "directory_stable store_services"
  by (simp add: directory_stable_def store_UpdateOrgUser_def store_AddOrgUser_def
      store_GetByName_def)

lemma recording_directory_stable: "directory_stable (recording_services f ms)"
  by (simp add: directory_stable_def recording_services_def)

text \<open>
  Claim C2, amended. For every implementation of the services, an identity that passes
  the guards and whose asserted roles do not have its active organization name, and a
  run in which the memberships are fetched and the three loops end without a returned
  error or a panic with the ids \<open>orgIDs\<close>: when lookups by name are not changed by
  updating or adding a membership, \<open>orgIDs\<close> are the ids of the organizations that the
  asserted names resolve to, those of memberships kept without being asserted not
  among them; when \<open>orgIDs\<close> is empty the hook returns no error and leaves the
  identity as it was, without a call of the user service; otherwise it sets \<open>OrgID\<close> of
  the identity to the smallest of \<open>orgIDs\<close>, calls the user service with that id and
  returns what that call returns, the identity changed also when the call fails. On
  the implementation of the services with a well-formed directory the hook returns no
  error and the active organization of the user in the user directory is that
  smallest id, or is unchanged when no asserted name resolves.
\<close>

theorem default_org_is_min_resolved:
  assumes "SyncOrgRoles (ClientParams id')" and "IsNamespace (ID id') NamespaceUser"
    and "ParseInt (ID id') = Some userID" and "OrgRoles id' \<noteq> []"
    and "\<not> has_key (OrgRoles id') (OrgName id')"
  shows "(GetUserOrgList svc userID s = (result, None)
          \<and> syncMemberships svc id' userID result s = (Return orgIDs, s1)
          \<longrightarrow> (directory_stable svc \<longrightarrow> orgIDs = resolved_ids svc s (OrgRoles id'))
            \<and> SyncOrgRolesHook svc id' s =
                (if orgIDs = [] then (Return (), id', s1)
                 else (case Update svc userID (Min (set orgIDs)) s1 of
                         (None, s2) \<Rightarrow> (Return (), id' \<lparr> OrgID := Min (set orgIDs) \<rparr>, s2)
                       | (Some err, s2) \<Rightarrow>
                           (Fail err, id' \<lparr> OrgID := Min (set orgIDs) \<rparr>, s2))))
       \<and> (directory_ok t
          \<longrightarrow> resolved_ids store_services t (OrgRoles id') = resolved_org_ids t (OrgRoles id')
            \<and> (\<exists>t'. SyncOrgRolesHook store_services id' t =
                 (if resolved_org_ids t (OrgRoles id') = [] then (Return (), id', t')
                  else (Return (),
                        id' \<lparr> OrgID := Min (set (resolved_org_ids t (OrgRoles id'))) \<rparr>, t'))
               \<and> (if resolved_org_ids t (OrgRoles id') = [] then user_org t' = user_org t
                  else map_of (user_org t') userID
                       = Some (Min (set (resolved_org_ids t (OrgRoles id')))))))"
proof (intro conjI impI)
  assume a: "GetUserOrgList svc userID s = (result, None)
          \<and> syncMemberships svc id' userID result s = (Return orgIDs, s1)"
  then have "SyncOrgRolesHook svc id' s = updateDefaultOrg svc id' userID orgIDs s1"
    using assms(1-4) by (simp add: SyncOrgRolesHook_def)
  with updateDefaultOrg_Min [OF assms(5), of svc userID orgIDs s1]
  show "SyncOrgRolesHook svc id' s =
                (if orgIDs = [] then (Return (), id', s1)
                 else (case Update svc userID (Min (set orgIDs)) s1 of
                         (None, s2) \<Rightarrow> (Return (), id' \<lparr> OrgID := Min (set orgIDs) \<rparr>, s2)
                       | (Some err, s2) \<Rightarrow>
                           (Fail err, id' \<lparr> OrgID := Min (set orgIDs) \<rparr>, s2)))"
    by simp
  assume "directory_stable svc"
  from syncMemberships_resolved [OF this a [THEN conjunct2]]
  show "orgIDs = resolved_ids svc s (OrgRoles id')" .
next
  show "resolved_ids store_services t (OrgRoles id') = resolved_org_ids t (OrgRoles id')"
    unfolding resolved_ids_def resolved_org_ids_def
    by (rule arg_cong [where f = "\<lambda>f. List.map_filter f (OrgRoles id')"])
      (auto simp: fun_eq_iff store_GetByName_def split: option.splits)
next
  assume ok: "directory_ok t"
  let ?ids = "resolved_org_ids t (OrgRoles id')"
  obtain result' where l: "store_GetUserOrgList userID t = (result', None)"
    by (simp add: store_GetUserOrgList_def)
  with store_memberships_known [OF ok, of userID]
  have "\<forall>m\<in>set result'. fst (store_GetByID (DTO_OrgID m) t) \<noteq> None" by simp
  from syncMemberships_store [OF this, of id' userID] obtain t1 where
    sm: "syncMemberships store_services id' userID result' t = (Return ?ids, t1)"
    and o: "user_org t1 = user_org t" by blast
  have hook: "SyncOrgRolesHook store_services id' t
      = updateDefaultOrg store_services id' userID ?ids t1"
    using assms(1-4) l sm by (simp add: SyncOrgRolesHook_def)
  show "\<exists>t'. SyncOrgRolesHook store_services id' t =
                 (if ?ids = [] then (Return (), id', t')
                  else (Return (), id' \<lparr> OrgID := Min (set ?ids) \<rparr>, t'))
               \<and> (if ?ids = [] then user_org t' = user_org t
                  else map_of (user_org t') userID = Some (Min (set ?ids)))"
  proof (cases "?ids = []")
    case True
    with hook o updateDefaultOrg_Min [OF assms(5), of store_services userID ?ids t1]
    show ?thesis by auto
  next
    case False
    let ?t' = "t1 \<lparr> user_org := AList.update userID (Min (set ?ids)) (user_org t1) \<rparr>"
    have "map_of (user_org ?t') userID = Some (Min (set ?ids))"
      by (simp add: update_conv')
    with hook False updateDefaultOrg_Min [OF assms(5), of store_services userID ?ids t1]
    show ?thesis by (auto simp: store_Update_def)
  qed
qed

theorem default_org_is_min_resolved_witness:
  "resolved_ids (recording_services no_faults admin_of_B) []
       [(''A'', ''Editor''), (''B'', ''Admin'')] = [2, 1]
   \<and> SyncOrgRolesHook (recording_services no_faults admin_of_B)
       (user_identity ''7'' 3 ''C'' [(''A'', ''Editor''), (''B'', ''Admin'')]) []
     = (Return (),
        (user_identity ''7'' 3 ''C'' [(''A'', ''Editor''), (''B'', ''Admin'')]) \<lparr> OrgID := 1 \<rparr>,
        [CallAddOrgUser 2 7 ''Editor'', CallUpdate 7 1])
   \<and> SyncOrgRolesHook
       (recording_services (no_faults \<lparr> user_update_error := Some (ErrOther ''db'') \<rparr>) admin_of_B)
       (user_identity ''7'' 3 ''C'' [(''A'', ''Editor''), (''B'', ''Admin'')]) []
     = (Fail (ErrOther ''db''),
        (user_identity ''7'' 3 ''C'' [(''A'', ''Editor''), (''B'', ''Admin'')]) \<lparr> OrgID := 1 \<rparr>,
        [CallAddOrgUser 2 7 ''Editor'', CallUpdate 7 1])
   \<and> SyncOrgRolesHook
       (recording_services (no_faults \<lparr> remove_error := (\<lambda>orgID. Some ErrLastOrgAdmin) \<rparr>)
          admin_of_B)
       (user_identity ''7'' 1 ''B'' [(''C'', ''Editor'')]) []
     = (Return (), user_identity ''7'' 1 ''B'' [(''C'', ''Editor'')], [CallRemoveOrgUser 1 7])
   \<and> resolved_ids store_services (store_two_admins \<lparr> user_org := [(7, 2)] \<rparr>)
       [(''A'', ''Editor''), (''B'', ''Admin'')] = [2, 1]
   \<and> (\<exists>t'. SyncOrgRolesHook store_services
            (user_identity ''7'' 3 ''C'' [(''A'', ''Editor''), (''B'', ''Admin'')])
            (store_two_admins \<lparr> user_org := [(7, 2)] \<rparr>)
          = (Return (),
             (user_identity ''7'' 3 ''C'' [(''A'', ''Editor''), (''B'', ''Admin'')]) \<lparr> OrgID := 1 \<rparr>,
             t')
        \<and> map_of (user_org t') 7 = Some 1)
   \<and> (\<exists>t'. SyncOrgRolesHook store_services (user_identity ''7'' 1 ''B'' [(''A'', ''Editor'')])
            store_last_admin
          = (Return (), (user_identity ''7'' 1 ''B'' [(''A'', ''Editor'')]) \<lparr> OrgID := 2 \<rparr>, t')
        \<and> map_of (user_org t') 7 = Some 2)"
proof -
  let ?idC = "user_identity ''7'' 3 ''C'' [(''A'', ''Editor''), (''B'', ''Admin'')]"
  let ?idB = "user_identity ''7'' 1 ''B'' [(''C'', ''Editor'')]"
  let ?id = "user_identity ''7'' 1 ''B'' [(''A'', ''Editor'')]"
  let ?rec = "recording_services no_faults admin_of_B"
  let ?upd = "recording_services (no_faults \<lparr> user_update_error := Some (ErrOther ''db'') \<rparr>)
      admin_of_B"
  let ?last = "recording_services (no_faults \<lparr> remove_error := (\<lambda>orgID. Some ErrLastOrgAdmin) \<rparr>)
      admin_of_B"
  let ?t = "store_two_admins \<lparr> user_org := [(7, 2)] \<rparr>"
  note gC = guards_user_identity(1,2,3) [of 3 "''C''" "[(''A'', ''Editor''), (''B'', ''Admin'')]"]
  note gB = guards_user_identity(1,2,3) [of 1 "''B''" "[(''C'', ''Editor'')]"]
  note g = guards_user_identity(1,2,3) [of 1 "''B''" "[(''A'', ''Editor'')]"]
  have ne: "OrgRoles ?idC \<noteq> []" "OrgRoles ?idB \<noteq> []" "OrgRoles ?id \<noteq> []"
    by (simp_all add: guards_user_identity)
  have k: "\<not> has_key (OrgRoles ?idC) (OrgName ?idC)" "\<not> has_key (OrgRoles ?idB) (OrgName ?idB)"
    "\<not> has_key (OrgRoles ?id) (OrgName ?id)"
    by (simp_all add: guards_user_identity has_key_def)
  note defs = recording_services_def no_faults_def admin_of_B_def org_A_def org_B_def
    guards_user_identity index_map_def syncMemberships_def
  note st = recording_directory_stable [of no_faults admin_of_B]
  have a: "GetUserOrgList ?rec 7 [] = (admin_of_B, None)
      \<and> syncMemberships ?rec ?idC 7 admin_of_B [] = (Return [2, 1], [CallAddOrgUser 2 7 ''Editor''])"
    by (simp add: defs)
  note r1 = default_org_is_min_resolved [OF gC ne(1) k(1), where svc = ?rec and s = "[]",
      THEN conjunct1, THEN mp, OF a]
  from r1 [THEN conjunct1, THEN mp, OF st]
  have 1: "resolved_ids ?rec [] [(''A'', ''Editor''), (''B'', ''Admin'')] = [2, 1]"
    by (simp add: guards_user_identity)
  from r1 [THEN conjunct2]
  have 2: "SyncOrgRolesHook ?rec ?idC []
      = (Return (), ?idC \<lparr> OrgID := 1 \<rparr>, [CallAddOrgUser 2 7 ''Editor'', CallUpdate 7 1])"
    by (simp add: recording_services_def no_faults_def)
  have b: "GetUserOrgList ?upd 7 [] = (admin_of_B, None)
      \<and> syncMemberships ?upd ?idC 7 admin_of_B [] = (Return [2, 1], [CallAddOrgUser 2 7 ''Editor''])"
    by (simp add: defs)
  from default_org_is_min_resolved [OF gC ne(1) k(1), where svc = ?upd and s = "[]",
      THEN conjunct1, THEN mp, OF b, THEN conjunct2]
  have 3: "SyncOrgRolesHook ?upd ?idC []
      = (Fail (ErrOther ''db''), ?idC \<lparr> OrgID := 1 \<rparr>,
         [CallAddOrgUser 2 7 ''Editor'', CallUpdate 7 1])"
    by (simp add: recording_services_def no_faults_def)
  have c: "GetUserOrgList ?last 7 [] = (admin_of_B, None)
      \<and> syncMemberships ?last ?idB 7 admin_of_B [] = (Return [], [CallRemoveOrgUser 1 7])"
    by (simp add: defs)
  from default_org_is_min_resolved [OF gB ne(2) k(2), where svc = ?last and s = "[]",
      THEN conjunct1, THEN mp, OF c, THEN conjunct2]
  have 4: "SyncOrgRolesHook ?last ?idB [] = (Return (), ?idB, [CallRemoveOrgUser 1 7])"
    by simp
  have ok: "directory_ok ?t"
    by (simp add: directory_ok_def store_two_admins_def org_A_def org_B_def)
  have r: "resolved_org_ids ?t [(''A'', ''Editor''), (''B'', ''Admin'')] = [2, 1]"
    "resolved_org_ids store_last_admin [(''A'', ''Editor'')] = [2]"
    by (simp_all add: resolved_org_ids_def List.map_filter_simps
        store_GetByName_def store_two_admins_def store_last_admin_def org_A_def org_B_def)
  note r2 = default_org_is_min_resolved [OF gC ne(1) k(1), where t = ?t,
      THEN conjunct2, THEN mp, OF ok]
  from r2 [THEN conjunct1]
  have 45: "resolved_ids store_services ?t [(''A'', ''Editor''), (''B'', ''Admin'')] = [2, 1]"
    by (simp add: guards_user_identity r)
  from r2 [THEN conjunct2]
  have 5: "\<exists>t'. SyncOrgRolesHook store_services ?idC ?t = (Return (), ?idC \<lparr> OrgID := 1 \<rparr>, t')
        \<and> map_of (user_org t') 7 = Some 1"
    by (simp add: guards_user_identity r)
  from default_org_is_min_resolved [OF g ne(3) k(3), where t = store_last_admin,
      THEN conjunct2, THEN mp, OF directory_ok_examples(1), THEN conjunct2]
  have 6: "\<exists>t'. SyncOrgRolesHook store_services ?id store_last_admin
          = (Return (), ?id \<lparr> OrgID := 2 \<rparr>, t')
        \<and> map_of (user_org t') 7 = Some 2"
    by (simp add: guards_user_identity r)
  from 1 2 3 4 45 5 6 show ?thesis by (intro conjI)
qed

lemma find_unique:
  "distinct (map f xs) \<Longrightarrow> x \<in> set xs \<Longrightarrow> find (\<lambda>y. f y = f x) xs = Some x"
proof (induction xs)
  case Nil
  then show ?case by simp
next
  case (Cons a xs)
  then show ?case by (cases "a = x") (auto simp: rev_image_eqI)
qed

lemma store_GetByID_member:
  "directory_ok s \<Longrightarrow> x \<in> set (orgs s) \<Longrightarrow> orgs t = orgs s \<Longrightarrow>
   store_GetByID (Org_ID x) t = (Some x, None)"
  by (simp add: store_GetByID_def directory_ok_def find_unique)

lemma store_GetByName_member:
  "directory_ok s \<Longrightarrow> x \<in> set (orgs s) \<Longrightarrow> orgs t = orgs s \<Longrightarrow>
   store_GetByName (Org_Name x) t = (Some x, None)"
  by (simp add: store_GetByName_def directory_ok_def find_unique)

lemma directory_distinct:
  assumes "directory_ok s" and "x \<in> set (orgs s)" and "y \<in> set (orgs s)" and "x \<noteq> y"
  shows "Org_ID x \<noteq> Org_ID y" and "Org_Name x \<noteq> Org_Name y"
proof -
  from assms(1) have "inj_on Org_ID (set (orgs s))" "inj_on Org_Name (set (orgs s))"
    by (simp_all add: directory_ok_def distinct_map)
  with assms(2-4) show "Org_ID x \<noteq> Org_ID y" and "Org_Name x \<noteq> Org_Name y"
    by (auto dest: inj_onD)
qed

lemma memberships_cong:
  "org_users t = org_users s \<Longrightarrow> user_memberships t u = user_memberships s u"
  by (simp add: user_memberships_def)

lemma memberships_update:
  "user_memberships (s \<lparr> org_users :=
      map (\<lambda>(o', v, r). if o' = orgID \<and> v = u then (o', v, role) else (o', v, r)) (org_users s) \<rparr>) u
   = map (\<lambda>(o', r). if o' = orgID then (o', role) else (o', r)) (user_memberships s u)"
proof -
  have "map (\<lambda>(o', v, r). (o', r)) (filter (\<lambda>(o', v, r). v = u)
          (map (\<lambda>(o', v, r). if o' = orgID \<and> v = u then (o', v, role) else (o', v, r)) xs))
      = map (\<lambda>(o', r). if o' = orgID then (o', role) else (o', r))
          (map (\<lambda>(o', v, r). (o', r)) (filter (\<lambda>(o', v, r). v = u) xs))" for xs
    by (induction xs) (auto split: if_splits)
  then show ?thesis by (simp add: user_memberships_def)
qed

lemma memberships_remove:
  "user_memberships (s \<lparr> org_users :=
      filter (\<lambda>(o', v, r). \<not> (o' = orgID \<and> v = u)) (org_users s) \<rparr>) u
   = filter (\<lambda>(o', r). o' \<noteq> orgID) (user_memberships s u)"
proof -
  have "map (\<lambda>(o', v, r). (o', r)) (filter (\<lambda>(o', v, r). v = u)
          (filter (\<lambda>(o', v, r). \<not> (o' = orgID \<and> v = u)) xs))
      = filter (\<lambda>(o', r). o' \<noteq> orgID)
          (map (\<lambda>(o', v, r). (o', r)) (filter (\<lambda>(o', v, r). v = u) xs))" for xs
    by (induction xs) (auto split: if_splits)
  then show ?thesis by (simp add: user_memberships_def)
qed

lemma last_admin_update:
  assumes "orgID \<noteq> other"
  shows "last_admin (s \<lparr> org_users :=
      map (\<lambda>(o', v, r). if o' = orgID \<and> v = u then (o', v, role) else (o', v, r)) (org_users s) \<rparr>)
        other u
     = last_admin s other u"
proof -
  let ?f = "\<lambda>(o', v, r). if o' = orgID \<and> v = u then (o', v, role) else (o', v, r)"
  have 1: "(other, u, RoleAdmin) \<in> set (map ?f xs) \<longleftrightarrow> (other, u, RoleAdmin) \<in> set xs" for xs
    using assms by (induction xs) (auto split: if_splits)
  have 2: "filter (\<lambda>(o', v, r). o' = other \<and> v \<noteq> u \<and> r = RoleAdmin) (map ?f xs)
      = filter (\<lambda>(o', v, r). o' = other \<and> v \<noteq> u \<and> r = RoleAdmin) xs" for xs
    using assms by (induction xs) (auto split: if_splits)
  show ?thesis unfolding last_admin_def using 1 2 by simp
qed

text \<open>
  Claim C1. On the implementation of the services, with a well-formed directory: when
  the memberships of the user are exactly the organizations \<open>A\<close> and \<open>B\<close> (in either
  order, with any roles) and the identity passes the guards and asserts Editor of \<open>A\<close>
  only, the hook returns no error and afterwards the user is a member of \<open>A\<close> with
  role Editor and of nothing else; unless the user is the last admin of \<open>B\<close>, so that
  the removal is rejected with the last-admin error: then the membership of \<open>B\<close> is
  kept as it was, beside that of \<open>A\<close> with role Editor.
\<close>

theorem sync_two_memberships:
  assumes ok: "directory_ok s" and A: "A \<in> set (orgs s)" and B: "B \<in> set (orgs s)"
    and AB: "A \<noteq> B"
    and ms: "user_memberships s u = [(Org_ID A, rA), (Org_ID B, rB)]
           \<or> user_memberships s u = [(Org_ID B, rB), (Org_ID A, rA)]"
    and g1: "SyncOrgRoles (ClientParams id')" and g2: "IsNamespace (ID id') NamespaceUser"
    and g3: "ParseInt (ID id') = Some u"
    and roles: "OrgRoles id' = [(Org_Name A, RoleEditor)]"
  shows "\<exists>id'' s'. SyncOrgRolesHook store_services id' s = (Return (), id'', s')
      \<and> mset (user_memberships s' u)
          = (if last_admin s (Org_ID B) u
             then {#(Org_ID A, RoleEditor), (Org_ID B, rB)#}
             else {#(Org_ID A, RoleEditor)#})"
proof -
  let ?a = "Org_ID A" and ?b = "Org_ID B"
  note d = directory_distinct [OF ok A B AB]
  let ?upd = "s \<lparr> org_users :=
      map (\<lambda>(o', v, r). if o' = ?a \<and> v = u then (o', v, RoleEditor) else (o', v, r)) (org_users s) \<rparr>"
  define s1 where "s1 = (if rA = RoleEditor then s else ?upd)"
  have s1o: "orgs s1 = orgs s" by (simp add: s1_def)
  have s1m: "user_memberships s1 u = map (\<lambda>(o', r). if o' = ?a then (o', RoleEditor) else (o', r))
      (user_memberships s u)"
  proof (cases "rA = RoleEditor")
    case True
    with ms d(1) show ?thesis by (auto simp: s1_def)
  next
    case False
    then show ?thesis by (simp add: s1_def memberships_update)
  qed
  have s1l: "last_admin s1 ?b u = last_admin s ?b u"
    by (simp add: s1_def last_admin_update [OF d(1)])
  have extA: "index_map (OrgRoles id') (Org_Name A) = RoleEditor" and ne: "RoleEditor \<noteq> []"
    by (simp_all add: roles index_map_def RoleEditor_def)
  have extB: "index_map (OrgRoles id') (Org_Name B) = []"
    using d(2) by (simp add: roles index_map_def)
  have idA: "store_GetByID ?a t = (Some A, None)" if "orgs t = orgs s" for t
    using store_GetByID_member [OF ok A that] .
  have idB: "store_GetByID ?b t = (Some B, None)" if "orgs t = orgs s" for t
    using store_GetByID_member [OF ok B that] .
  define dA where "dA = \<lparr> DTO_OrgID = ?a, DTO_Name = Org_Name A, DTO_Role = rA \<rparr>"
  define dB where "dB = \<lparr> DTO_OrgID = ?b, DTO_Name = Org_Name B, DTO_Role = rB \<rparr>"
  have list: "store_GetUserOrgList u s = ([dA, dB], None)
      \<or> store_GetUserOrgList u s = ([dB, dA], None)"
    using ms idA [of s] idB [of s] by (auto simp: store_GetUserOrgList_def dA_def dB_def)
  have stepA: "updateLoop store_services id' u (dA # rest) h dl s
      = updateLoop store_services id' u rest (insert ?a h) dl s1" for rest h dl
    using idA [of s] extA ne
    by (simp add: dA_def Let_def s1_def store_UpdateOrgUser_def)
  have stepB: "updateLoop store_services id' u (dB # rest) h dl t
      = updateLoop store_services id' u rest (insert ?b h) (dl @ [?b]) t"
    if "orgs t = orgs s" for rest h dl t
    using idB [OF that] extB by (simp add: dB_def Let_def)
  have up: "updateLoop store_services id' u [dA, dB] {} [] s = (Return ({?a, ?b}, [?b]), s1)"
    by (simp add: stepA stepB [OF s1o] insert_commute del: updateLoop.simps(2))
  have up': "updateLoop store_services id' u [dB, dA] {} [] s = (Return ({?a, ?b}, [?b]), s1)"
    by (simp add: stepA stepB [of s] del: updateLoop.simps(2))
  have add: "addLoop store_services u {?a, ?b} (OrgRoles id') [] s1 = (Return [?a], s1)"
    using store_GetByName_member [OF ok A s1o] by (simp add: roles)
  let ?rm = "s1 \<lparr> org_users := filter (\<lambda>(o', v, r). \<not> (o' = ?b \<and> v = u)) (org_users s1) \<rparr>"
  define s3 where "s3 = (if last_admin s ?b u then s1
      else ?rm \<lparr> permissions := filter (\<lambda>p. p \<noteq> (?b, u)) (permissions ?rm) \<rparr>)"
  have rem: "removeLoop store_services u [?b] s1 = (Return (), s3)"
    using s1l by (simp add: s3_def store_RemoveOrgUser_def store_DeleteUserPermissions_def)
  have s3m: "user_memberships s3 u
      = (if last_admin s ?b u then user_memberships s1 u
         else filter (\<lambda>(o', r). o' \<noteq> ?b) (user_memberships s1 u))"
  proof (cases "last_admin s ?b u")
    case True
    then show ?thesis by (simp add: s3_def)
  next
    case False
    then have "org_users s3 = org_users ?rm" by (simp add: s3_def)
    then have "user_memberships s3 u = user_memberships ?rm u" by (rule memberships_cong)
    also have "\<dots> = filter (\<lambda>(o', r). o' \<noteq> ?b) (user_memberships s1 u)"
      by (rule memberships_remove)
    finally show ?thesis using False by simp
  qed
  have sm: "syncMemberships store_services id' u result s = (Return [?a], s3)"
    if "result = [dA, dB] \<or> result = [dB, dA]" for result
    using that up up' add rem by (auto simp: syncMemberships_def)
  obtain result where res: "store_GetUserOrgList u s = (result, None)"
    "result = [dA, dB] \<or> result = [dB, dA]"
    using list by blast
  have hook: "SyncOrgRolesHook store_services id' s = updateDefaultOrg store_services id' u [?a] s3"
    using g1 g2 g3 roles res(1) sm [OF res(2)] by (simp add: SyncOrgRolesHook_def)
  obtain id'' s4 where fin: "updateDefaultOrg store_services id' u [?a] s3 = (Return (), id'', s4)"
    and s4: "org_users s4 = org_users s3"
    by (cases "has_key (OrgRoles id') (OrgName id')")
      (simp_all add: updateDefaultOrg_def store_Update_def)
  have "user_memberships s4 u = user_memberships s3 u"
    using s4 by (rule memberships_cong)
  with s3m s1m have "user_memberships s4 u
      = (if last_admin s ?b u
         then map (\<lambda>(o', r). if o' = ?a then (o', RoleEditor) else (o', r)) (user_memberships s u)
         else filter (\<lambda>(o', r). o' \<noteq> ?b)
           (map (\<lambda>(o', r). if o' = ?a then (o', RoleEditor) else (o', r)) (user_memberships s u)))"
    by simp
  with ms d(1) have "mset (user_memberships s4 u)
          = (if last_admin s ?b u
             then {#(?a, RoleEditor), (?b, rB)#}
             else {#(?a, RoleEditor)#})"
    by auto
  with hook fin show ?thesis by simp
qed

theorem sync_two_memberships_witness:
  "(\<exists>id'' s'. SyncOrgRolesHook store_services (user_identity ''7'' 1 ''B'' [(''A'', ''Editor'')])
        store_two_admins = (Return (), id'', s')
      \<and> mset (user_memberships s' 7) = {#(2, ''Editor'')#})
   \<and> (\<exists>id'' s'. SyncOrgRolesHook store_services (user_identity ''7'' 1 ''B'' [(''A'', ''Editor'')])
        store_last_admin = (Return (), id'', s')
      \<and> mset (user_memberships s' 7) = {#(2, ''Editor''), (1, ''Admin'')#})"
proof -
  let ?id = "user_identity ''7'' 1 ''B'' [(''A'', ''Editor'')]"
  have roles: "OrgRoles ?id = [(Org_Name org_A, RoleEditor)]"
    by (simp add: guards_user_identity org_A_def RoleEditor_def)
  have AB: "org_A \<noteq> org_B" by (simp add: org_A_def org_B_def)
  have m2: "org_A \<in> set (orgs store_two_admins)" "org_B \<in> set (orgs store_two_admins)"
    by (simp_all add: store_two_admins_def)
  have m1: "org_A \<in> set (orgs store_last_admin)" "org_B \<in> set (orgs store_last_admin)"
    by (simp_all add: store_last_admin_def)
  have u2: "user_memberships store_two_admins 7 = [(Org_ID org_A, ''Viewer''), (Org_ID org_B, ''Admin'')]
      \<or> user_memberships store_two_admins 7 = [(Org_ID org_B, ''Admin''), (Org_ID org_A, ''Viewer'')]"
    by (simp add: user_memberships_def store_two_admins_def org_A_def org_B_def)
  have u1: "user_memberships store_last_admin 7 = [(Org_ID org_A, ''Viewer''), (Org_ID org_B, ''Admin'')]
      \<or> user_memberships store_last_admin 7 = [(Org_ID org_B, ''Admin''), (Org_ID org_A, ''Viewer'')]"
    by (simp add: user_memberships_def store_last_admin_def org_A_def org_B_def)
  have l2: "\<not> last_admin store_two_admins (Org_ID org_B) 7"
    by (simp add: last_admin_def store_two_admins_def org_B_def RoleAdmin_def)
  have l1: "last_admin store_last_admin (Org_ID org_B) 7"
    by (simp add: last_admin_def store_last_admin_def org_B_def RoleAdmin_def)
  note g = guards_user_identity(1,2,3) [of 1 "''B''" "[(''A'', ''Editor'')]"]
  from sync_two_memberships [OF directory_ok_examples(2) m2 AB u2 g roles] l2
  have 1: "\<exists>id'' s'. SyncOrgRolesHook store_services ?id store_two_admins = (Return (), id'', s')
      \<and> mset (user_memberships s' 7) = {#(2, ''Editor'')#}"
    by (simp add: org_A_def RoleEditor_def)
  from sync_two_memberships [OF directory_ok_examples(1) m1 AB u1 g roles] l1
  have 2: "\<exists>id'' s'. SyncOrgRolesHook store_services ?id store_last_admin = (Return (), id'', s')
      \<and> mset (user_memberships s' 7) = {#(2, ''Editor''), (1, ''Admin'')#}"
    by (simp add: org_A_def org_B_def RoleEditor_def)
  from 1 2 show ?thesis by blast
qed

end
